theory Spec2Isabelle
  imports Main
begin

section \<open>Data model of \<open>internal/clients/clients.go\<close>\<close>

text \<open>
  The package keeps one Kubernetes client per bearer token. A pointer is modelled by
  the address it holds (a natural number) and the objects it may point to by a store
  in the \<open>world\<close> record below; a Go \<open>map[string]*session\<close> is a partial map from
  tokens to session addresses, so that "the same Session instance" is equality of
  addresses. Times are nanoseconds, as \<open>time.Duration\<close> is.
\<close>

type_synonym token = string
type_synonym time = int
type_synonym duration = int

type_synonym sid = nat       \<comment> \<open>\<open>*session\<close>\<close>
type_synonym cfg_ptr = nat   \<comment> \<open>\<open>*rest.Config\<close>\<close>
type_synonym scheme = nat    \<comment> \<open>\<open>*runtime.Scheme\<close>, opaque here\<close>
type_synonym mapper = nat    \<comment> \<open>\<open>meta.RESTMapper\<close>, opaque here\<close>
type_synonym wclient = nat   \<comment> \<open>what \<open>client.New\<close> returns\<close>
type_synonym wcache = nat    \<comment> \<open>what \<open>cache.New\<close> returns\<close>
type_synonym dclient = nat   \<comment> \<open>what \<open>client.NewDelegatingClient\<close> returns\<close>

definition Minute :: duration where
  "Minute = 60 * 1000000000"

text \<open>\<open>const expiry = 5 * time.Minute\<close> (line 22).\<close>

definition expiry :: duration where
  "expiry = 5 * Minute"

text \<open>
  The resource kinds of \<open>doNotCache\<close> (lines 30--40); \<open>OtherKind\<close> stands for every
  kind that is not in the list, such as an unstructured object of any GVK.
\<close>

datatype kind =
    Pod | Secret | ConfigMap | Service | ServiceAccount
  | Deployment | DaemonSet | RoleBinding | ClusterRoleBinding
  | OtherKind string

definition doNotCache :: "kind list" where
  "doNotCache =
     [Pod, Secret, ConfigMap, Service, ServiceAccount,
      Deployment, DaemonSet, RoleBinding, ClusterRoleBinding]"

text \<open>
  \<open>rest.Config\<close>: the two fields the package writes, and two of the fields it only
  copies.
\<close>

record rest_config =
  Host :: string
  APIPath :: string
  BearerToken :: string
  BearerTokenFile :: string

text \<open>
  Errors of \<open>github.com/pkg/errors\<close>: \<open>errors.New msg\<close>, \<open>errors.Wrap err msg\<close>, and
  \<open>Cause\<close> for an error that an external constructor reports.
\<close>

datatype error = Cause string | New string | Wrap error string

text \<open>
  \<open>logging.Logger\<close>: the no-op logger discards every message; any other logger
  carries the key/value pairs given to it by \<open>WithValues\<close> and appends to the
  \<open>logged\<close> lines of the world.
\<close>

datatype logval = Str string | Dur duration | At time

type_synonym keyvals = "(string \<times> logval) list"
type_synonym log_entry = "string \<times> keyvals"

datatype logger = NopLogger | Logger keyvals

fun WithValues :: "logger \<Rightarrow> keyvals \<Rightarrow> logger" where
  "WithValues NopLogger kv = NopLogger"
| "WithValues (Logger vs) kv = Logger (vs @ kv)"

fun Debug :: "logger \<Rightarrow> string \<Rightarrow> keyvals \<Rightarrow> log_entry list \<Rightarrow> log_entry list" where
  "Debug NopLogger msg kv out = out"
| "Debug (Logger vs) msg kv out = out @ [(msg, vs @ kv)]"

text \<open>
  \<open>type Cache struct\<close> (lines 88--97). The mutex \<open>mx\<close> has no field: every function
  below that runs under it is one atomic step of the model.
\<close>

record Cache =
  active :: "token \<rightharpoonup> sid"
  cfg :: cfg_ptr
  scheme :: scheme
  mapper :: "mapper option"
  log :: logger

text \<open>
  \<open>type session struct\<close> (lines 242--248). \<open>cancel\<close> is the cancel function of the
  context made for the session, so the model keeps the state of that context:
  \<open>ctx_done\<close> holds once \<open>cancel\<close> has been called. \<open>expired\<close> is the ticker, kept as
  the time of its next tick, \<open>None\<close> once it is stopped. A tick is due from that time
  on; a tick that the channel of the ticker may still hold from before a \<open>Reset\<close> is
  not modelled.
\<close>

record session =
  client :: dclient
  ctx_done :: bool
  expired :: "time option"
  slog :: logger

text \<open>
  The two goroutines that \<open>Get\<close> starts (lines 195--215), each with the variables its
  closure captures and the point it has reached.
\<close>

datatype task =
    SyncTask token wcache sid   \<comment> \<open>inside \<open>ca.Start(ctx)\<close>\<close>
  | SyncReturned token          \<comment> \<open>\<open>Start\<close> has returned, \<open>c.remove(token)\<close> is next\<close>
  | IdleTask token sid          \<comment> \<open>inside the \<open>select\<close>\<close>
  | IdleExpired token           \<comment> \<open>\<open>expired.C\<close> was selected, \<open>c.remove(token)\<close> is next\<close>
  | Finished

text \<open>
  The state the package reads and writes: the cache, the \<open>rest.Config\<close> and session
  objects on the heap with the next free address of each, the clock, the goroutines
  started so far and the lines written by loggers.
\<close>

record world =
  cache :: Cache
  configs :: "cfg_ptr \<Rightarrow> rest_config"
  nconfigs :: nat
  sessions :: "sid \<Rightarrow> session"
  nsessions :: nat
  now :: time
  goroutines :: "task list"
  logged :: "log_entry list"

definition debug :: "logger \<Rightarrow> string \<Rightarrow> keyvals \<Rightarrow> world \<Rightarrow> world" where
  "debug l msg kv w = w\<lparr>logged := Debug l msg kv (logged w)\<rparr>"

subsection \<open>Contexts and tickers\<close>

text \<open>\<open>sn.cancel()\<close>: cancelling a cancelled context changes nothing.\<close>

definition cancel :: "sid \<Rightarrow> world \<Rightarrow> world" where
  "cancel sn w = w\<lparr>sessions := (sessions w)(sn := (sessions w sn)\<lparr>ctx_done := True\<rparr>)\<rparr>"

text \<open>
  \<open>time.NewTicker d\<close> ticks first at \<open>d\<close> from now; \<open>Reset d\<close> makes the next tick
  arrive \<open>d\<close> from now, also on a stopped ticker; \<open>Stop\<close> turns the ticker off.
\<close>

definition NewTicker :: "duration \<Rightarrow> world \<Rightarrow> time option" where
  "NewTicker d w = Some (now w + d)"

definition Reset :: "sid \<Rightarrow> duration \<Rightarrow> world \<Rightarrow> world" where
  "Reset sn d w =
     w\<lparr>sessions := (sessions w)(sn := (sessions w sn)\<lparr>expired := Some (now w + d)\<rparr>)\<rparr>"

definition Stop :: "sid \<Rightarrow> world \<Rightarrow> world" where
  "Stop sn w = w\<lparr>sessions := (sessions w)(sn := (sessions w sn)\<lparr>expired := None\<rparr>)\<rparr>"

subsection \<open>Configurations\<close>

text \<open>\<open>rest.CopyConfig\<close> allocates a new \<open>rest.Config\<close> with the fields of its argument.\<close>

definition CopyConfig :: "cfg_ptr \<Rightarrow> world \<Rightarrow> cfg_ptr \<times> world" where
  "CopyConfig p w =
     (nconfigs w,
      w\<lparr>configs := (configs w)(nconfigs w := configs w p), nconfigs := Suc (nconfigs w)\<rparr>)"

text \<open>\<open>WithoutBearerToken\<close> (lines 64--69).\<close>

definition WithoutBearerToken :: "cfg_ptr \<Rightarrow> world \<Rightarrow> cfg_ptr \<times> world" where
  "WithoutBearerToken p w =
     (let (out, w1) = CopyConfig p w;
          w2 = w1\<lparr>configs := (configs w1)(out := (configs w1 out)\<lparr>BearerToken := []\<rparr>)\<rparr>;
          w3 = w2\<lparr>configs := (configs w2)(out := (configs w2 out)\<lparr>BearerTokenFile := []\<rparr>)\<rparr>
      in (out, w3))"

subsection \<open>Cache options and \<open>NewCache\<close>\<close>

text \<open>\<open>type CacheOption func(c *Cache)\<close> (line 100) and its two constructors.\<close>

type_synonym CacheOption = "Cache \<Rightarrow> Cache"

definition WithLogger :: "logger \<Rightarrow> CacheOption" where
  "WithLogger l = (\<lambda>c. c\<lparr>log := l\<rparr>)"

definition WithRESTMapper :: "mapper \<Rightarrow> CacheOption" where
  "WithRESTMapper m = (\<lambda>c. c\<lparr>mapper := Some m\<rparr>)"

text \<open>\<open>NewCache\<close> (lines 121--134): the options are applied in order.\<close>

definition NewCache :: "scheme \<Rightarrow> cfg_ptr \<Rightarrow> CacheOption list \<Rightarrow> Cache" where
  "NewCache s c opts =
     fold (\<lambda>fn ch. fn ch) opts
       \<lparr>active = Map.empty, cfg = c, scheme = s, mapper = None, log = NopLogger\<rparr>"

section \<open>External collaborators\<close>

text \<open>
  controller-runtime is not part of the package. What it answers is a parameter of the
  model: the three constructors that can fail, \<open>WaitForCacheSync\<close>, and the ten methods
  of the delegating client. A method of the delegating client is given the world in
  which it is called, so that a theorem can say what has already happened by then.
\<close>

type_synonym ctx = nat              \<comment> \<open>the caller's \<open>context.Context\<close>\<close>
type_synonym objkey = "string \<times> string"
type_synonym obj = nat              \<comment> \<open>\<open>client.Object\<close>\<close>
type_synonym objlist = nat          \<comment> \<open>\<open>client.ObjectList\<close>\<close>
type_synonym opt = string
type_synonym patch = string
type_synonym status_writer = nat

text \<open>\<open>client.NewDelegatingClientInput\<close>.\<close>

record dci =
  CacheReader :: wcache
  Client :: wclient
  UncachedObjects :: "kind list"
  CacheUnstructured :: bool

record env =
  client_New :: "rest_config \<Rightarrow> scheme \<Rightarrow> mapper option \<Rightarrow> error + wclient"
  cache_New :: "rest_config \<Rightarrow> scheme \<Rightarrow> mapper option \<Rightarrow> error + wcache"
  NewDelegatingClient :: "dci \<Rightarrow> error + dclient"
  WaitForCacheSync :: "wcache \<Rightarrow> sid \<Rightarrow> world \<Rightarrow> bool"
  client_Get :: "dclient \<Rightarrow> ctx \<Rightarrow> objkey \<Rightarrow> obj \<Rightarrow> world \<Rightarrow> error option"
  client_List :: "dclient \<Rightarrow> ctx \<Rightarrow> objlist \<Rightarrow> opt list \<Rightarrow> world \<Rightarrow> error option"
  client_Create :: "dclient \<Rightarrow> ctx \<Rightarrow> obj \<Rightarrow> opt list \<Rightarrow> world \<Rightarrow> error option"
  client_Delete :: "dclient \<Rightarrow> ctx \<Rightarrow> obj \<Rightarrow> opt list \<Rightarrow> world \<Rightarrow> error option"
  client_Update :: "dclient \<Rightarrow> ctx \<Rightarrow> obj \<Rightarrow> opt list \<Rightarrow> world \<Rightarrow> error option"
  client_Patch :: "dclient \<Rightarrow> ctx \<Rightarrow> obj \<Rightarrow> patch \<Rightarrow> opt list \<Rightarrow> world \<Rightarrow> error option"
  client_DeleteAllOf :: "dclient \<Rightarrow> ctx \<Rightarrow> obj \<Rightarrow> opt list \<Rightarrow> world \<Rightarrow> error option"
  client_Status :: "dclient \<Rightarrow> world \<Rightarrow> status_writer"
  client_Scheme :: "dclient \<Rightarrow> world \<Rightarrow> scheme"
  client_RESTMapper :: "dclient \<Rightarrow> world \<Rightarrow> mapper"

section \<open>The cache\<close>

subsection \<open>\<open>remove\<close>\<close>

text \<open>
  \<open>func (c *Cache) remove(token string)\<close> (lines 230--240). The whole body runs under
  the write lock.
\<close>

definition remove :: "token \<Rightarrow> world \<Rightarrow> world" where
  "remove token w =
     (case active (cache w) token of
        None \<Rightarrow> w
      | Some sn \<Rightarrow>
          (let w1 = cancel sn w;
               w2 = Stop sn w1;
               w3 = w2\<lparr>cache := (cache w2)\<lparr>active := (active (cache w2))(token := None)\<rparr>\<rparr>
           in debug (log (cache w3)) ''Removed client from cache''
                [(''token'', Str token)] w3))"

subsection \<open>\<open>Get\<close>\<close>

text \<open>
  \<open>func (c *Cache) Get(token string)\<close> (lines 137--228), in the pieces between which
  another goroutine can run. Lines 152--154: the configuration for this token.
\<close>

definition Get_config :: "token \<Rightarrow> world \<Rightarrow> cfg_ptr \<times> world" where
  "Get_config token w =
     (let (cf, w1) = CopyConfig (cfg (cache w)) w;
          w2 = w1\<lparr>configs := (configs w1)(cf := (configs w1 cf)\<lparr>BearerToken := token\<rparr>)\<rparr>;
          w3 = w2\<lparr>configs := (configs w2)(cf := (configs w2 cf)\<lparr>BearerTokenFile := []\<rparr>)\<rparr>
      in (cf, w3))"

text \<open>Lines 166--177: the input of the delegating client.\<close>

definition Get_dci :: "wcache \<Rightarrow> wclient \<Rightarrow> dci" where
  "Get_dci ca wc =
     \<lparr>CacheReader = ca, Client = wc, UncachedObjects = doNotCache, CacheUnstructured = True\<rparr>"

text \<open>
  Lines 186--189: the ticker, the context and the session, which is a new object on
  the heap.
\<close>

definition new_session :: "dclient \<Rightarrow> logger \<Rightarrow> world \<Rightarrow> sid \<times> world" where
  "new_session dc l w =
     (let ticker = NewTicker expiry w;
          sn = nsessions w
      in (sn,
          w\<lparr>sessions := (sessions w)
               (sn := \<lparr>client = dc, ctx_done = False, expired = ticker, slog = l\<rparr>),
            nsessions := Suc (nsessions w)\<rparr>))"

text \<open>The local variables of \<open>Get\<close> that are live after line 189.\<close>

record locals =
  l_ca :: wcache
  l_sn :: sid
  l_started :: time
  l_newExpiry :: time

text \<open>Lines 150--189. Nothing here holds the lock or writes the map.\<close>

definition Get_build :: "env \<Rightarrow> token \<Rightarrow> world \<Rightarrow> (error + locals) \<times> world" where
  "Get_build e token w =
     (let started = now w;
          (cf, w1) = Get_config token w
      in case client_New e (configs w1 cf) (scheme (cache w1)) (mapper (cache w1)) of
           Inl err \<Rightarrow> (Inl (Wrap err ''cannot create write client''), w1)
         | Inr wc \<Rightarrow>
             (case cache_New e (configs w1 cf) (scheme (cache w1)) (mapper (cache w1)) of
                Inl err \<Rightarrow> (Inl (Wrap err ''cannot create cache''), w1)
              | Inr ca \<Rightarrow>
                  (case NewDelegatingClient e (Get_dci ca wc) of
                     Inl err \<Rightarrow> (Inl (Wrap err ''cannot create delegating client''), w1)
                   | Inr dc \<Rightarrow>
                       (let newExpiry = now w1 + expiry;
                            (sn, w2) = new_session dc (log (cache w1)) w1
                        in (Inr \<lparr>l_ca = ca, l_sn = sn, l_started = started,
                                  l_newExpiry = newExpiry\<rparr>, w2)))))"

text \<open>Lines 191--193, under the write lock.\<close>

definition Get_insert :: "token \<Rightarrow> sid \<Rightarrow> world \<Rightarrow> world" where
  "Get_insert token sn w =
     w\<lparr>cache := (cache w)\<lparr>active := (active (cache w))(token \<mapsto> sn)\<rparr>\<rparr>"

text \<open>Lines 195--215: the two \<open>go\<close> statements.\<close>

definition Get_spawn :: "token \<Rightarrow> wcache \<Rightarrow> sid \<Rightarrow> world \<Rightarrow> world" where
  "Get_spawn token ca sn w =
     w\<lparr>goroutines := goroutines w @ [SyncTask token ca sn, IdleTask token sn]\<rparr>"

text \<open>Lines 217--227.\<close>

definition Get_wait :: "env \<Rightarrow> logger \<Rightarrow> token \<Rightarrow> locals \<Rightarrow> world \<Rightarrow> (error + sid) \<times> world" where
  "Get_wait e lg token lc w =
     (if \<not> WaitForCacheSync e (l_ca lc) (l_sn lc) w
      then (Inl (New ''cannot sync cache''), remove token w)
      else (Inr (l_sn lc),
            debug lg ''Created new client''
              [(''duration'', Dur (now w - l_started lc)),
               (''new-expiry'', At (l_newExpiry lc))] w))"

text \<open>The whole of \<open>Get\<close>, when no other goroutine runs in between.\<close>

definition Get :: "env \<Rightarrow> token \<Rightarrow> world \<Rightarrow> (error + sid) \<times> world" where
  "Get e token w =
     (let lg = WithValues (log (cache w)) [(''token'', Str token)]
      in case active (cache w) token of
           Some sn \<Rightarrow> (Inr sn, debug lg ''Used existing client'' [] w)
         | None \<Rightarrow>
             (case Get_build e token w of
                (Inl err, w1) \<Rightarrow> (Inl err, w1)
              | (Inr lc, w1) \<Rightarrow>
                  (let w2 = Get_insert token (l_sn lc) w1;
                       w3 = Get_spawn token (l_ca lc) (l_sn lc) w2
                   in Get_wait e lg token lc w3)))"

section \<open>Sessions\<close>

text \<open>
  The ten methods of \<open>session\<close> (lines 250--368). The value logged under
  \<open>operation\<close> is the one the source writes, also where it is not the name of the
  method. The call of the delegating client takes no time in the model: the clock
  moves only in the steps of the transition system below.
\<close>

text \<open>\<open>func (s *session) Get\<close> (lines 250--260).\<close>

definition session_Get ::
    "env \<Rightarrow> sid \<Rightarrow> ctx \<Rightarrow> objkey \<Rightarrow> obj \<Rightarrow> world \<Rightarrow> error option \<times> world" where
  "session_Get e s c key ob w =
     (let t = now w;
          w1 = Reset s expiry w;
          err = client_Get e (client (sessions w1 s)) c key ob w1;
          w2 = debug (slog (sessions w1 s)) ''Client called''
                 [(''operation'', Str ''Get''),
                  (''duration'', Dur (now w1 - t)),
                  (''new-expiry'', At (t + expiry))] w1
      in (err, w2))"

text \<open>\<open>func (s *session) List\<close> (lines 262--272).\<close>

definition session_List ::
    "env \<Rightarrow> sid \<Rightarrow> ctx \<Rightarrow> objlist \<Rightarrow> opt list \<Rightarrow> world \<Rightarrow> error option \<times> world" where
  "session_List e s c list opts w =
     (let t = now w;
          w1 = Reset s expiry w;
          err = client_List e (client (sessions w1 s)) c list opts w1;
          w2 = debug (slog (sessions w1 s)) ''Client called''
                 [(''operation'', Str ''List''),
                  (''duration'', Dur (now w1 - t)),
                  (''new-expiry'', At (t + expiry))] w1
      in (err, w2))"

text \<open>\<open>func (s *session) Create\<close> (lines 274--284).\<close>

definition session_Create ::
    "env \<Rightarrow> sid \<Rightarrow> ctx \<Rightarrow> obj \<Rightarrow> opt list \<Rightarrow> world \<Rightarrow> error option \<times> world" where
  "session_Create e s c ob opts w =
     (let t = now w;
          w1 = Reset s expiry w;
          err = client_Create e (client (sessions w1 s)) c ob opts w1;
          w2 = debug (slog (sessions w1 s)) ''Client called''
                 [(''operation'', Str ''Create''),
                  (''duration'', Dur (now w1 - t)),
                  (''new-expiry'', At (t + expiry))] w1
      in (err, w2))"

text \<open>\<open>func (s *session) Delete\<close> (lines 286--296).\<close>

definition session_Delete ::
    "env \<Rightarrow> sid \<Rightarrow> ctx \<Rightarrow> obj \<Rightarrow> opt list \<Rightarrow> world \<Rightarrow> error option \<times> world" where
  "session_Delete e s c ob opts w =
     (let t = now w;
          w1 = Reset s expiry w;
          err = client_Delete e (client (sessions w1 s)) c ob opts w1;
          w2 = debug (slog (sessions w1 s)) ''Client called''
                 [(''operation'', Str ''Delete''),
                  (''duration'', Dur (now w1 - t)),
                  (''new-expiry'', At (t + expiry))] w1
      in (err, w2))"

text \<open>\<open>func (s *session) Update\<close> (lines 298--308).\<close>

definition session_Update ::
    "env \<Rightarrow> sid \<Rightarrow> ctx \<Rightarrow> obj \<Rightarrow> opt list \<Rightarrow> world \<Rightarrow> error option \<times> world" where
  "session_Update e s c ob opts w =
     (let t = now w;
          w1 = Reset s expiry w;
          err = client_Update e (client (sessions w1 s)) c ob opts w1;
          w2 = debug (slog (sessions w1 s)) ''Client called''
                 [(''operation'', Str ''Update''),
                  (''duration'', Dur (now w1 - t)),
                  (''new-expiry'', At (t + expiry))] w1
      in (err, w2))"

text \<open>\<open>func (s *session) Patch\<close> (lines 310--320).\<close>

definition session_Patch ::
    "env \<Rightarrow> sid \<Rightarrow> ctx \<Rightarrow> obj \<Rightarrow> patch \<Rightarrow> opt list \<Rightarrow> world \<Rightarrow> error option \<times> world" where
  "session_Patch e s c ob p opts w =
     (let t = now w;
          w1 = Reset s expiry w;
          err = client_Patch e (client (sessions w1 s)) c ob p opts w1;
          w2 = debug (slog (sessions w1 s)) ''Client called''
                 [(''operation'', Str ''Patch''),
                  (''duration'', Dur (now w1 - t)),
                  (''new-expiry'', At (t + expiry))] w1
      in (err, w2))"

text \<open>\<open>func (s *session) DeleteAllOf\<close> (lines 322--332).\<close>

definition session_DeleteAllOf ::
    "env \<Rightarrow> sid \<Rightarrow> ctx \<Rightarrow> obj \<Rightarrow> opt list \<Rightarrow> world \<Rightarrow> error option \<times> world" where
  "session_DeleteAllOf e s c ob opts w =
     (let t = now w;
          w1 = Reset s expiry w;
          err = client_DeleteAllOf e (client (sessions w1 s)) c ob opts w1;
          w2 = debug (slog (sessions w1 s)) ''Client called''
                 [(''operation'', Str ''DeleteallOf''),
                  (''duration'', Dur (now w1 - t)),
                  (''new-expiry'', At (t + expiry))] w1
      in (err, w2))"

text \<open>\<open>func (s *session) Status\<close> (lines 334--344).\<close>

definition session_Status ::
    "env \<Rightarrow> sid \<Rightarrow> world \<Rightarrow> status_writer \<times> world" where
  "session_Status e s w =
     (let t = now w;
          w1 = Reset s expiry w;
          err = client_Status e (client (sessions w1 s)) w1;
          w2 = debug (slog (sessions w1 s)) ''Client called''
                 [(''operation'', Str ''Status''),
                  (''duration'', Dur (now w1 - t)),
                  (''new-expiry'', At (t + expiry))] w1
      in (err, w2))"

text \<open>\<open>func (s *session) Scheme\<close> (lines 346--356).\<close>

definition session_Scheme ::
    "env \<Rightarrow> sid \<Rightarrow> world \<Rightarrow> scheme \<times> world" where
  "session_Scheme e s w =
     (let t = now w;
          w1 = Reset s expiry w;
          err = client_Scheme e (client (sessions w1 s)) w1;
          w2 = debug (slog (sessions w1 s)) ''Client called''
                 [(''operation'', Str ''Scheme''),
                  (''duration'', Dur (now w1 - t)),
                  (''new-expiry'', At (t + expiry))] w1
      in (err, w2))"

text \<open>\<open>func (s *session) RESTMapper\<close> (lines 358--368).\<close>

definition session_RESTMapper ::
    "env \<Rightarrow> sid \<Rightarrow> world \<Rightarrow> mapper \<times> world" where
  "session_RESTMapper e s w =
     (let t = now w;
          w1 = Reset s expiry w;
          err = client_RESTMapper e (client (sessions w1 s)) w1;
          w2 = debug (slog (sessions w1 s)) ''Client called''
                 [(''operation'', Str ''Scheme''),
                  (''duration'', Dur (now w1 - t)),
                  (''new-expiry'', At (t + expiry))] w1
      in (err, w2))"

text \<open>A call of any of the ten methods, and what it returns.\<close>

datatype call =
    CGet ctx objkey obj
  | CList ctx objlist "opt list"
  | CCreate ctx obj "opt list"
  | CDelete ctx obj "opt list"
  | CUpdate ctx obj "opt list"
  | CPatch ctx obj patch "opt list"
  | CDeleteAllOf ctx obj "opt list"
  | CStatus
  | CScheme
  | CRESTMapper

datatype reply =
    RErr "error option"
  | RStatus status_writer
  | RScheme scheme
  | RMapper mapper

fun session_call :: "env \<Rightarrow> sid \<Rightarrow> call \<Rightarrow> world \<Rightarrow> reply \<times> world" where
  "session_call e s (CGet c key ob) w = apfst RErr (session_Get e s c key ob w)"
| "session_call e s (CList c list opts) w = apfst RErr (session_List e s c list opts w)"
| "session_call e s (CCreate c ob opts) w = apfst RErr (session_Create e s c ob opts w)"
| "session_call e s (CDelete c ob opts) w = apfst RErr (session_Delete e s c ob opts w)"
| "session_call e s (CUpdate c ob opts) w = apfst RErr (session_Update e s c ob opts w)"
| "session_call e s (CPatch c ob p opts) w = apfst RErr (session_Patch e s c ob p opts w)"
| "session_call e s (CDeleteAllOf c ob opts) w =
     apfst RErr (session_DeleteAllOf e s c ob opts w)"
| "session_call e s CStatus w = apfst RStatus (session_Status e s w)"
| "session_call e s CScheme w = apfst RScheme (session_Scheme e s w)"
| "session_call e s CRESTMapper w = apfst RMapper (session_RESTMapper e s w)"

section \<open>Goroutines and interleavings\<close>

text \<open>
  The steps of the two goroutines of lines 195--215. \<open>ca.Start\<close> is external: it may
  return at any moment, with \<open>nil\<close> or with an error, and the goroutine drops what it
  returns. The \<open>select\<close> takes \<open>expired.C\<close> when a tick is due and \<open>ctx.Done()\<close> when
  the context of the session is cancelled. A goroutine that has decided to call
  \<open>c.remove(token)\<close> has that call as its only step.
\<close>

datatype choice =
    StartReturns "error option"
  | SelectExpired
  | SelectDone
  | Proceed

fun task_step :: "choice \<Rightarrow> task \<Rightarrow> world \<Rightarrow> (task \<times> world) option" where
  "task_step ch (SyncTask token ca sn) w =
     (case ch of StartReturns r \<Rightarrow> Some (SyncReturned token, w) | _ \<Rightarrow> None)"
| "task_step ch (SyncReturned token) w =
     (case ch of Proceed \<Rightarrow> Some (Finished, remove token w) | _ \<Rightarrow> None)"
| "task_step ch (IdleTask token sn) w =
     (case ch of
        SelectExpired \<Rightarrow>
          (case expired (sessions w sn) of
             None \<Rightarrow> None
           | Some d \<Rightarrow> if d \<le> now w then Some (IdleExpired token, w) else None)
      | SelectDone \<Rightarrow> if ctx_done (sessions w sn) then Some (Finished, w) else None
      | _ \<Rightarrow> None)"
| "task_step ch (IdleExpired token) w =
     (case ch of Proceed \<Rightarrow> Some (Finished, remove token w) | _ \<Rightarrow> None)"
| "task_step ch Finished w = None"

text \<open>
  A call of \<open>Get\<close> in progress: where it is, with its argument and its live local
  variables. Between two of these points the call holds no lock.
\<close>

datatype get_pc =
    AtLookup token            \<comment> \<open>line 139\<close>
  | AtBuild token             \<comment> \<open>line 150: \<open>ok\<close> was false\<close>
  | AtInsert token locals     \<comment> \<open>line 191\<close>
  | AtSpawn token locals      \<comment> \<open>line 195\<close>
  | AtWait token locals       \<comment> \<open>line 217\<close>
  | AtRemove token            \<comment> \<open>line 218: the sync failed\<close>
  | Returned token "error + sid"

fun Get_step :: "env \<Rightarrow> get_pc \<Rightarrow> world \<Rightarrow> get_pc \<times> world" where
  "Get_step e (AtLookup token) w =
     (case active (cache w) token of
        Some sn \<Rightarrow>
          (Returned token (Inr sn),
           debug (WithValues (log (cache w)) [(''token'', Str token)])
             ''Used existing client'' [] w)
      | None \<Rightarrow> (AtBuild token, w))"
| "Get_step e (AtBuild token) w =
     (case Get_build e token w of
        (Inl err, w1) \<Rightarrow> (Returned token (Inl err), w1)
      | (Inr lc, w1) \<Rightarrow> (AtInsert token lc, w1))"
| "Get_step e (AtInsert token lc) w = (AtSpawn token lc, Get_insert token (l_sn lc) w)"
| "Get_step e (AtSpawn token lc) w =
     (AtWait token lc, Get_spawn token (l_ca lc) (l_sn lc) w)"
| "Get_step e (AtWait token lc) w =
     (if \<not> WaitForCacheSync e (l_ca lc) (l_sn lc) w then (AtRemove token, w)
      else (Returned token (Inr (l_sn lc)),
            debug (WithValues (log (cache w)) [(''token'', Str token)])
              ''Created new client''
              [(''duration'', Dur (now w - l_started lc)),
               (''new-expiry'', At (l_newExpiry lc))] w))"
| "Get_step e (AtRemove token) w =
     (Returned token (Inl (New ''cannot sync cache'')), remove token w)"
| "Get_step e (Returned token r) w = (Returned token r, w)"

text \<open>
  One step of the whole system: a caller enters \<open>Get\<close>, a call of \<open>Get\<close> or a goroutine
  moves on, time passes, or the holder of a session calls one of its methods.
\<close>

inductive step :: "env \<Rightarrow> get_pc list \<times> world \<Rightarrow> get_pc list \<times> world \<Rightarrow> bool"
  for e :: env where
  enter: "step e (cs, w) (cs @ [AtLookup token], w)"
| get: "i < length cs \<Longrightarrow> Get_step e (cs ! i) w = (pc, w') \<Longrightarrow>
        step e (cs, w) (cs[i := pc], w')"
| task: "j < length (goroutines w) \<Longrightarrow> task_step ch (goroutines w ! j) w = Some (t, w') \<Longrightarrow>
         step e (cs, w) (cs, w'\<lparr>goroutines := (goroutines w')[j := t]\<rparr>)"
| tick: "0 \<le> d \<Longrightarrow> step e (cs, w) (cs, w\<lparr>now := now w + d\<rparr>)"
| use: "sn < nsessions w \<Longrightarrow> session_call e sn c w = (r, w') \<Longrightarrow> step e (cs, w) (cs, w')"

text \<open>What can be reached from a cache with an empty map and no call in progress.\<close>

inductive reach :: "env \<Rightarrow> get_pc list \<times> world \<Rightarrow> bool"
  for e :: env where
  reach_init: "active (cache w) = Map.empty \<Longrightarrow> reach e ([], w)"
| reach_step: "reach e k \<Longrightarrow> step e k k' \<Longrightarrow> reach e k'"

section \<open>Definitions for the proofs\<close>

text \<open>
  The session that a call of \<open>Get\<close> holds in a local variable or has returned, with the
  token the call was made for.
\<close>

fun held :: "get_pc \<Rightarrow> (token \<times> sid) option" where
  "held (AtInsert token lc) = Some (token, l_sn lc)"
| "held (AtSpawn token lc) = Some (token, l_sn lc)"
| "held (AtWait token lc) = Some (token, l_sn lc)"
| "held (Returned token (Inr sn)) = Some (token, sn)"
| "held _ = None"

text \<open>
  Every session in the map or in the hands of a call has an address below the next
  free one and belongs to one token, the one given by \<open>own\<close>.
\<close>

definition owned :: "(sid \<Rightarrow> token) \<Rightarrow> get_pc list \<times> world \<Rightarrow> bool" where
  "owned own k =
     (case k of (cs, w) \<Rightarrow>
        (\<forall>token sn. active (cache w) token = Some sn \<longrightarrow> sn < nsessions w \<and> own sn = token) \<and>
        (\<forall>pc \<in> set cs. \<forall>token sn. held pc = Some (token, sn) \<longrightarrow>
             sn < nsessions w \<and> own sn = token))"

text \<open>
  A session that has been allocated, is in no entry of the map, and is not about to
  be inserted by a call of \<open>Get\<close> in progress; and a session whose context is not
  cancelled and whose ticker is not stopped.
\<close>

definition retired :: "sid \<Rightarrow> get_pc list \<times> world \<Rightarrow> bool" where
  "retired sn k =
     (case k of (cs, w) \<Rightarrow>
        sn < nsessions w \<and>
        (\<forall>token. active (cache w) token \<noteq> Some sn) \<and>
        (\<forall>pc \<in> set cs. \<forall>token lc. pc = AtInsert token lc \<longrightarrow> l_sn lc \<noteq> sn))"

definition running :: "sid \<Rightarrow> world \<Rightarrow> bool" where
  "running sn w = (\<not> ctx_done (sessions w sn) \<and> expired (sessions w sn) \<noteq> None)"

section \<open>A concrete world\<close>

text \<open>
  A connection template that still names a token file, a cache made by \<open>NewCache\<close> with
  no option, and collaborators that always succeed, that never finish the first sync,
  and that refuse a delegating client with uncached kinds.
\<close>

definition template :: rest_config where
  "template = \<lparr>Host = ''https://kubernetes.default.svc'', APIPath = ''/api'',
                BearerToken = ''own'', BearerTokenFile = ''/var/run/secrets/token''\<rparr>"

definition blank :: session where
  "blank = \<lparr>client = 0, ctx_done = False, expired = None, slog = NopLogger\<rparr>"

definition world0 :: world where
  "world0 = \<lparr>cache = NewCache 7 0 [], configs = (\<lambda>p. template), nconfigs = 1,
             sessions = (\<lambda>s. blank), nsessions = 0, now = 1000, goroutines = [],
             logged = []\<rparr>"

definition env_ok :: env where
  "env_ok = \<lparr>client_New = (\<lambda>c s m. Inr (length (BearerToken c))),
             cache_New = (\<lambda>c s m. Inr (length (BearerToken c))),
             NewDelegatingClient = (\<lambda>d. Inr (CacheReader d)),
             WaitForCacheSync = (\<lambda>ca sn w. True),
             client_Get = (\<lambda>d c k ob w. None),
             client_List = (\<lambda>d c l opts w. None),
             client_Create = (\<lambda>d c ob opts w. None),
             client_Delete = (\<lambda>d c ob opts w. None),
             client_Update = (\<lambda>d c ob opts w. None),
             client_Patch = (\<lambda>d c ob p opts w. None),
             client_DeleteAllOf = (\<lambda>d c ob opts w. None),
             client_Status = (\<lambda>d w. d),
             client_Scheme = (\<lambda>d w. 7),
             client_RESTMapper = (\<lambda>d w. 0)\<rparr>"

definition env_nosync :: env where
  "env_nosync = env_ok\<lparr>WaitForCacheSync := (\<lambda>ca sn w. False)\<rparr>"

definition env_strict :: env where
  "env_strict = env_ok\<lparr>NewDelegatingClient :=
     (\<lambda>d. if UncachedObjects d = [] then Inr (CacheReader d)
          else Inl (Cause ''uncached objects given''))\<rparr>"

definition Get_result :: "env \<Rightarrow> token \<Rightarrow> world \<Rightarrow> error + sid" where
  "Get_result e token w = fst (Get e token w)"

definition world_a :: world where
  "world_a = snd (Get env_ok ''tok-a'' world0)"

definition world_ab :: world where
  "world_ab = snd (Get env_ok ''tok-b'' world_a)"

text \<open>
  The world after the first call of \<open>Get\<close> in which \<open>ca.Start\<close> of the new session has
  returned and its goroutine is about to call \<open>remove\<close>.
\<close>

definition world_crashed :: world where
  "world_crashed = world_a\<lparr>goroutines := (goroutines world_a)[0 := SyncReturned ''tok-a'']\<rparr>"

text \<open>
  Collaborators that refuse a delegating client without uncached kinds, and the world
  after a call of \<open>Get\<close> whose first sync does not finish.
\<close>

definition env_empty_only :: env where
  "env_empty_only = env_ok\<lparr>NewDelegatingClient :=
     (\<lambda>d. if UncachedObjects d = [] then Inl (Cause ''no uncached objects given'')
          else Inr (CacheReader d))\<rparr>"

definition world_nosync :: world where
  "world_nosync = snd (Get env_nosync ''tok-a'' world0)"

text \<open>
  A schedule for calls of \<open>Get\<close> in progress: call \<open>i\<close> takes its next step. In \<open>race\<close>
  two calls for the same token both miss, both build a session, and the second
  inserts after the first.
\<close>

definition sched :: "env \<Rightarrow> nat \<Rightarrow> get_pc list \<times> world \<Rightarrow> get_pc list \<times> world" where
  "sched e i k =
     (case k of (cs, w) \<Rightarrow>
        (case Get_step e (cs ! i) w of (pc, w') \<Rightarrow> (cs[i := pc], w')))"

definition race :: "get_pc list \<times> world" where
  "race = foldl (\<lambda>k i. sched env_ok i k)
            ([AtLookup ''tok-a'', AtLookup ''tok-a''], world0) [0, 1, 0, 1, 0, 0, 1, 1]"

definition world_race :: world where
  "world_race = snd race"

text \<open>
  The world after the race in which \<open>ca.Start\<close> of the first session has returned and
  its goroutine has called \<open>remove\<close>.
\<close>

definition world_evicted :: world where
  "world_evicted =
     (remove ''tok-a'' world_race)
       \<lparr>goroutines := [Finished, IdleTask ''tok-a'' 0, SyncTask ''tok-a'' 5 1, IdleTask ''tok-a'' 1]\<rparr>"

section \<open>Basic facts\<close>

lemma debug_simps:
  "cache (debug l m kv w) = cache w"
  "sessions (debug l m kv w) = sessions w"
  "nsessions (debug l m kv w) = nsessions w"
  "configs (debug l m kv w) = configs w"
  "nconfigs (debug l m kv w) = nconfigs w"
  "goroutines (debug l m kv w) = goroutines w"
  "now (debug l m kv w) = now w"
  by (simp_all add: debug_def)

lemma debug_Nop: "debug NopLogger m kv w = w"
  by (simp add: debug_def)

lemma remove_absent: "active (cache w) T = None \<Longrightarrow> remove T w = w"
  by (simp add: remove_def)

lemma active_remove: "active (cache (remove T w)) = (active (cache w))(T := None)"
  by (auto simp: remove_def Let_def debug_def cancel_def Stop_def split: option.splits)

lemma cache_remove:
  "cache (remove T w) = (cache w)\<lparr>active := (active (cache w))(T := None)\<rparr>"
  by (auto simp: remove_def Let_def debug_def cancel_def Stop_def fun_upd_idem
      split: option.splits)

lemma sessions_remove:
  "sessions (remove T w) =
     (case active (cache w) T of
        None \<Rightarrow> sessions w
      | Some sn \<Rightarrow> (sessions w)(sn := (sessions w sn)\<lparr>ctx_done := True, expired := None\<rparr>))"
  by (auto simp: remove_def Let_def debug_def cancel_def Stop_def split: option.splits)

lemma remove_frame:
  "nsessions (remove T w) = nsessions w"
  "configs (remove T w) = configs w"
  "nconfigs (remove T w) = nconfigs w"
  "goroutines (remove T w) = goroutines w"
  "now (remove T w) = now w"
  by (auto simp: remove_def Let_def debug_def cancel_def Stop_def split: option.splits)

lemma remove_twice: "remove T (remove T w) = remove T w"
  by (rule remove_absent) (simp add: active_remove)

lemma Reset_simps:
  "cache (Reset s d w) = cache w"
  "nsessions (Reset s d w) = nsessions w"
  "configs (Reset s d w) = configs w"
  "nconfigs (Reset s d w) = nconfigs w"
  "goroutines (Reset s d w) = goroutines w"
  "now (Reset s d w) = now w"
  "logged (Reset s d w) = logged w"
  "client (sessions (Reset s d w) s') = client (sessions w s')"
  "ctx_done (sessions (Reset s d w) s') = ctx_done (sessions w s')"
  "slog (sessions (Reset s d w) s') = slog (sessions w s')"
  "expired (sessions (Reset s d w) s) = Some (now w + d)"
  by (simp_all add: Reset_def)

lemmas session_defs =
  session_Get_def session_List_def session_Create_def session_Delete_def
  session_Update_def session_Patch_def session_DeleteAllOf_def session_Status_def
  session_Scheme_def session_RESTMapper_def

lemma Get_config_eq:
  "Get_config T w =
     (nconfigs w,
      w\<lparr>configs := (configs w)
           (nconfigs w := (configs w (cfg (cache w)))\<lparr>BearerToken := T, BearerTokenFile := []\<rparr>),
        nconfigs := Suc (nconfigs w)\<rparr>)"
  by (simp add: Get_config_def CopyConfig_def Let_def)

lemma Get_build_Inl:
  assumes "Get_build e T w = (Inl err, w1)"
  shows "cache w1 = cache w" "sessions w1 = sessions w" "nsessions w1 = nsessions w"
    "goroutines w1 = goroutines w" "now w1 = now w" "logged w1 = logged w"
    "nconfigs w1 = Suc (nconfigs w)"
    "configs w1 = (configs w)
       (nconfigs w := (configs w (cfg (cache w)))\<lparr>BearerToken := T, BearerTokenFile := []\<rparr>)"
  using assms
  by (auto simp: Get_build_def Get_config_eq new_session_def Let_def split: sum.splits)

lemma Get_build_Inr:
  assumes "Get_build e T w = (Inr lc, w1)"
  shows "cache w1 = cache w" "l_sn lc = nsessions w" "nsessions w1 = Suc (nsessions w)"
    "goroutines w1 = goroutines w" "now w1 = now w" "logged w1 = logged w"
    "nconfigs w1 = Suc (nconfigs w)"
    "configs w1 = (configs w)
       (nconfigs w := (configs w (cfg (cache w)))\<lparr>BearerToken := T, BearerTokenFile := []\<rparr>)"
    "ctx_done (sessions w1 (nsessions w)) = False"
    "expired (sessions w1 (nsessions w)) = Some (now w + expiry)"
    "s \<noteq> nsessions w \<Longrightarrow> sessions w1 s = sessions w s"
  using assms
  by (auto simp: Get_build_def Get_config_eq new_session_def NewTicker_def Let_def
      split: sum.splits)

lemma Get_build_error:
  assumes "Get_build e T w = (Inl err, w1)"
  shows "(\<exists>c. err = Wrap c ''cannot create write client'') \<or>
         (\<exists>c. err = Wrap c ''cannot create cache'') \<or>
         (\<exists>c. err = Wrap c ''cannot create delegating client'')"
  using assms
  by (auto simp: Get_build_def Get_config_eq new_session_def Let_def split: sum.splits)

lemma Get_step_build_fails:
  assumes "Get_step e (AtBuild token) v = (Returned token (Inl err), v')"
  shows "cache v' = cache v \<and> sessions v' = sessions v \<and> goroutines v' = goroutines v"
proof -
  obtain b v1 where b: "Get_build e token v = (b, v1)" by (cases "Get_build e token v")
  with assms have "b = Inl err" "v1 = v'" by (cases b; simp)+
  with b show ?thesis by (simp add: Get_build_Inl)
qed

lemma WithoutBearerToken_eq:
  "WithoutBearerToken p w =
     (nconfigs w,
      w\<lparr>configs := (configs w)
           (nconfigs w := (configs w p)\<lparr>BearerToken := [], BearerTokenFile := []\<rparr>),
        nconfigs := Suc (nconfigs w)\<rparr>)"
  by (simp add: WithoutBearerToken_def CopyConfig_def Let_def)

lemmas Get_defs =
  Get_def Get_build_def Get_config_eq Get_dci_def new_session_def NewTicker_def
  Get_insert_def Get_spawn_def Get_wait_def Let_def NewCache_def debug_def

lemmas example_defs =
  world0_def env_ok_def env_nosync_def env_strict_def env_empty_only_def template_def blank_def

lemma world_a_active: "active (cache world_a) ''tok-a'' = Some 0"
  by (simp add: world_a_def Get_defs example_defs)

lemma world_a_eval:
  "goroutines world_a = [SyncTask ''tok-a'' 5 0, IdleTask ''tok-a'' 0]"
  "now world_a = 1000"
  "sessions world_a 0 =
     \<lparr>client = 5, ctx_done = False, expired = Some (1000 + expiry), slog = NopLogger\<rparr>"
  by (simp_all add: world_a_def Get_defs example_defs)

subsection \<open>The ownership invariant\<close>

lemma session_call_frame:
  assumes "session_call e s c w = (r, w')"
  shows "cache w' = cache w" "nsessions w' = nsessions w"
  using assms
  by (cases c; auto simp: session_defs Let_def Reset_simps debug_simps)+

lemma task_step_frame:
  assumes "task_step ch t w = Some (t', w')"
  shows "nsessions w' = nsessions w"
    "active (cache w') token = Some sn \<Longrightarrow> active (cache w) token = Some sn"
  using assms
  by (cases t; cases ch;
      auto simp: remove_frame active_remove split: option.splits if_splits)+

lemma owned_update:
  assumes inv: "owned own (cs, w)"
    and mono: "nsessions w \<le> nsessions w'"
    and old: "\<And>sn. sn < nsessions w \<Longrightarrow> own' sn = own sn"
    and act: "\<And>token sn. active (cache w') token = Some sn \<Longrightarrow>
               sn < nsessions w' \<and> own' sn = token"
    and new: "\<And>token sn. held pc = Some (token, sn) \<Longrightarrow> sn < nsessions w' \<and> own' sn = token"
  shows "owned own' (cs[i := pc], w')"
proof -
  have "sn < nsessions w' \<and> own' sn = token"
    if "q \<in> set (cs[i := pc])" and h: "held q = Some (token, sn)" for q token sn
  proof -
    from that(1) have "q = pc \<or> q \<in> set cs"
      using set_update_subset_insert[of cs i pc] by auto
    then show ?thesis
    proof
      assume "q = pc" with h new show ?thesis by simp
    next
      assume "q \<in> set cs"
      with inv h have "sn < nsessions w \<and> own sn = token" by (auto simp: owned_def)
      with mono old show ?thesis by auto
    qed
  qed
  with act show ?thesis by (auto simp: owned_def)
qed

lemma owned_Get_step:
  assumes inv: "owned own (cs, w)" and i: "i < length cs"
    and st: "Get_step e (cs ! i) w = (pc, w')"
  shows "\<exists>own'. owned own' (cs[i := pc], w')"
proof -
  have mem: "cs ! i \<in> set cs" using i by simp
  have act: "\<And>token sn. active (cache w) token = Some sn \<Longrightarrow> sn < nsessions w \<and> own sn = token"
    using inv by (simp add: owned_def)
  have hld: "\<And>token sn. held (cs ! i) = Some (token, sn) \<Longrightarrow> sn < nsessions w \<and> own sn = token"
    using inv mem by (auto simp: owned_def)
  show ?thesis
  proof (cases "cs ! i")
    case (AtLookup token)
    with st act have "owned own (cs[i := pc], w')"
      by (intro owned_update[OF inv]) (auto simp: debug_simps split: option.splits)
    then show ?thesis by blast
  next
    case (AtBuild token)
    show ?thesis
    proof (cases "Get_build e token w")
      case (Pair r w1)
      show ?thesis
      proof (cases r)
        case (Inl err)
        with Pair AtBuild st act Get_build_Inl(1,3)[of e token w err w1]
        have "owned own (cs[i := pc], w')"
          by (intro owned_update[OF inv]) auto
        then show ?thesis by blast
      next
        case (Inr lc)
        with Pair AtBuild st act Get_build_Inr(1-3)[of e token w lc w1]
        have "owned (own(nsessions w := token)) (cs[i := pc], w')"
          by (intro owned_update[OF inv]) (auto simp: less_Suc_eq)
        then show ?thesis by blast
      qed
    qed
  next
    case (AtInsert token lc)
    with st act hld have "owned own (cs[i := pc], w')"
      by (intro owned_update[OF inv]) (auto simp: Get_insert_def split: if_splits)
    then show ?thesis by blast
  next
    case (AtSpawn token lc)
    with st act hld have "owned own (cs[i := pc], w')"
      by (intro owned_update[OF inv]) (auto simp: Get_spawn_def)
    then show ?thesis by blast
  next
    case (AtWait token lc)
    with st act hld have "owned own (cs[i := pc], w')"
      by (intro owned_update[OF inv]) (auto simp: debug_simps split: if_splits)
    then show ?thesis by blast
  next
    case (AtRemove token)
    with st act hld have "owned own (cs[i := pc], w')"
      by (intro owned_update[OF inv])
         (auto simp: active_remove remove_frame split: if_splits)
    then show ?thesis by blast
  next
    case (Returned token r)
    with st act hld have "owned own (cs[i := pc], w')"
      by (intro owned_update[OF inv]) auto
    then show ?thesis by blast
  qed
qed

lemma reach_owned: "reach e k \<Longrightarrow> \<exists>own. owned own k"
proof (induction rule: reach.induct)
  case (reach_init w)
  then show ?case by (simp add: owned_def)
next
  case (reach_step k k')
  then obtain own where inv: "owned own k" by blast
  from reach_step.hyps(2) show ?case
  proof (cases rule: step.cases)
    case (enter cs w token)
    with inv show ?thesis by (intro exI[of _ own]) (auto simp: owned_def)
  next
    case (get i cs w pc w')
    with inv owned_Get_step show ?thesis by blast
  next
    case (task j w ch t w' cs)
    with inv task_step_frame[of ch "goroutines w ! j" w t w'] show ?thesis
      by (intro exI[of _ own]) (auto simp: owned_def)
  next
    case (tick d cs w)
    with inv show ?thesis by (intro exI[of _ own]) (auto simp: owned_def)
  next
    case (use sn w c r w' cs)
    with inv session_call_frame[of e sn c w r w'] show ?thesis
      by (intro exI[of _ own]) (auto simp: owned_def)
  qed
qed

subsection \<open>A call of \<open>Get\<close> alone is a run of the transition system\<close>

lemma step_last:
  assumes "Get_step e pc w = (pc', w')"
  shows "step e (cs @ [pc], w) (cs @ [pc'], w')"
  using get[of "length cs" "cs @ [pc]" e w pc' w'] assms by simp

lemma reach_last:
  assumes "reach e (cs @ [pc], w)" and "Get_step e pc w = (pc', w')"
  shows "reach e (cs @ [pc'], w')"
  using assms(1) step_last[OF assms(2)] by (rule reach_step)

lemma reach_Get:
  assumes r: "reach e (cs, w)" and g: "Get e token w = (res, w')"
  shows "reach e (cs @ [Returned token res], w')"
proof -
  have r0: "reach e (cs @ [AtLookup token], w)"
    using r enter by (rule reach_step)
  show ?thesis
  proof (cases "active (cache w) token")
    case (Some sn)
    with g show ?thesis
      by (intro reach_last[OF r0]) (auto simp: Get_def Let_def)
  next
    case None
    then have r1: "reach e (cs @ [AtBuild token], w)"
      by (intro reach_last[OF r0]) simp
    obtain b w1 where b: "Get_build e token w = (b, w1)" by (cases "Get_build e token w")
    show ?thesis
    proof (cases b)
      case (Inl err)
      with b g None show ?thesis
        by (intro reach_last[OF r1]) (auto simp: Get_def Let_def)
    next
      case (Inr lc)
      let ?w2 = "Get_insert token (l_sn lc) w1"
      let ?w3 = "Get_spawn token (l_ca lc) (l_sn lc) ?w2"
      have lg: "log (cache ?w3) = log (cache w)"
        using Get_build_Inr(1)[of e token w lc w1] b Inr
        by (simp add: Get_insert_def Get_spawn_def)
      from b Inr have r2: "reach e (cs @ [AtInsert token lc], w1)"
        by (intro reach_last[OF r1]) simp
      have r3: "reach e (cs @ [AtSpawn token lc], ?w2)"
        by (intro reach_last[OF r2]) simp
      have r4: "reach e (cs @ [AtWait token lc], ?w3)"
        by (intro reach_last[OF r3]) simp
      from g None b Inr
      have g': "Get_wait e (WithValues (log (cache w)) [(''token'', Str token)]) token lc ?w3
                  = (res, w')"
        by (simp add: Get_def Let_def)
      show ?thesis
      proof (cases "WaitForCacheSync e (l_ca lc) (l_sn lc) ?w3")
        case True
        with g' lg show ?thesis
          by (intro reach_last[OF r4]) (auto simp: Get_wait_def)
      next
        case False
        then have r5: "reach e (cs @ [AtRemove token], ?w3)"
          by (intro reach_last[OF r4]) simp
        from False g' show ?thesis
          by (intro reach_last[OF r5]) (auto simp: Get_wait_def)
      qed
    qed
  qed
qed

lemma cfg_remove: "cfg (cache (remove t w)) = cfg (cache w)"
  by (simp add: cache_remove)

lemma Get_miss_configs:
  assumes "active (cache w) token = None"
  shows "configs (snd (Get e token w)) =
           (configs w)(nconfigs w :=
              (configs w (cfg (cache w)))\<lparr>BearerToken := token, BearerTokenFile := []\<rparr>)"
    and "cfg (cache (snd (Get e token w))) = cfg (cache w)"
proof -
  obtain b w1 where b: "Get_build e token w = (b, w1)" by (cases "Get_build e token w")
  show "configs (snd (Get e token w)) =
           (configs w)(nconfigs w :=
              (configs w (cfg (cache w)))\<lparr>BearerToken := token, BearerTokenFile := []\<rparr>)"
    using assms b Get_build_Inl(8)[of e token w _ w1] Get_build_Inr(8)[of e token w _ w1]
    by (cases b)
       (auto simp: Get_def Let_def Get_wait_def Get_insert_def Get_spawn_def remove_frame
          debug_simps)
  show "cfg (cache (snd (Get e token w))) = cfg (cache w)"
    using assms b Get_build_Inl(1)[of e token w _ w1] Get_build_Inr(1)[of e token w _ w1]
    by (cases b)
       (auto simp: Get_def Let_def Get_wait_def Get_insert_def Get_spawn_def cfg_remove
          debug_simps)
qed

lemma NewCache_snoc: "NewCache s c (opts @ [f]) = f (NewCache s c opts)"
  by (simp add: NewCache_def)

lemma NewCache_known:
  "active (NewCache s c (map (case_sum WithLogger WithRESTMapper) os)) = Map.empty \<and>
   cfg (NewCache s c (map (case_sum WithLogger WithRESTMapper) os)) = c \<and>
   scheme (NewCache s c (map (case_sum WithLogger WithRESTMapper) os)) = s"
proof (induction os rule: rev_induct)
  case Nil
  then show ?case by (simp add: NewCache_def)
next
  case (snoc x xs)
  then show ?case
    by (cases x) (simp_all add: NewCache_snoc WithLogger_def WithRESTMapper_def)
qed

lemma Get_build_delegating:
  assumes "\<forall>d. UncachedObjects d = doNotCache \<longrightarrow>
             NewDelegatingClient e' d = NewDelegatingClient e d"
  shows "Get_build (e\<lparr>NewDelegatingClient := NewDelegatingClient e'\<rparr>) token w =
         Get_build e token w"
proof -
  have "NewDelegatingClient e' (Get_dci ca wc) = NewDelegatingClient e (Get_dci ca wc)" for ca wc
    using assms by (simp add: Get_dci_def)
  then show ?thesis
    by (simp add: Get_build_def Let_def split: sum.splits prod.splits)
qed

subsection \<open>Two calls of \<open>Get\<close> for one token that overlap\<close>

lemma reach_sched:
  assumes "reach e (cs, w)" and "i < length cs"
  shows "reach e (sched e i (cs, w))"
proof -
  obtain pc w' where g: "Get_step e (cs ! i) w = (pc, w')" by (cases "Get_step e (cs ! i) w")
  from assms(2) g have "step e (cs, w) (cs[i := pc], w')" by (rule get)
  with assms(1) have "reach e (cs[i := pc], w')" by (rule reach_step)
  with g show ?thesis by (simp add: sched_def)
qed

lemma length_sched: "length (fst (sched e i k)) = length (fst k)"
  by (cases k) (simp add: sched_def split: prod.splits)

lemma reach_foldl_sched:
  assumes "reach e k" and "\<forall>i \<in> set is. i < length (fst k)"
  shows "reach e (foldl (\<lambda>k i. sched e i k) k is)"
  using assms
proof (induction "is" arbitrary: k)
  case Nil
  then show ?case by simp
next
  case (Cons i "is")
  obtain cs w where k: "k = (cs, w)" by (cases k)
  with Cons.prems have "reach e (sched e i k)" by (simp add: reach_sched)
  moreover from Cons.prems have "\<forall>j \<in> set is. j < length (fst (sched e i k))"
    by (simp add: length_sched)
  ultimately show ?case using Cons.IH by simp
qed

lemma reach_enter: "reach e (cs, w) \<Longrightarrow> reach e (cs @ [AtLookup token], w)"
  by (erule reach_step) (rule enter)

lemma reach_race: "reach env_ok race"
proof -
  have "reach env_ok ([], world0)"
    by (rule reach_init) (simp add: world0_def NewCache_def)
  from reach_enter[OF this, of "''tok-a''"]
  have "reach env_ok ([AtLookup ''tok-a''], world0)" by simp
  from reach_enter[OF this, of "''tok-a''"]
  have "reach env_ok ([AtLookup ''tok-a'', AtLookup ''tok-a''], world0)" by simp
  then show ?thesis
    unfolding race_def by (intro reach_foldl_sched) simp_all
qed

lemma race_eval:
  "fst race = [AtWait ''tok-a'' \<lparr>l_ca = 5, l_sn = 0, l_started = 1000, l_newExpiry = 1000 + expiry\<rparr>,
               AtWait ''tok-a'' \<lparr>l_ca = 5, l_sn = 1, l_started = 1000, l_newExpiry = 1000 + expiry\<rparr>]"
  "active (cache world_race) ''tok-a'' = Some 1"
  "goroutines world_race =
     [SyncTask ''tok-a'' 5 0, IdleTask ''tok-a'' 0, SyncTask ''tok-a'' 5 1, IdleTask ''tok-a'' 1]"
  "sessions world_race 0 =
     \<lparr>client = 5, ctx_done = False, expired = Some (1000 + expiry), slog = NopLogger\<rparr>"
  "sessions world_race 1 =
     \<lparr>client = 5, ctx_done = False, expired = Some (1000 + expiry), slog = NopLogger\<rparr>"
  by (simp_all add: world_race_def race_def sched_def Get_defs example_defs)

subsection \<open>A session out of the map stays out\<close>

lemma session_call_running:
  assumes "session_call e s c w = (r, w')"
  shows "running sn w \<Longrightarrow> running sn w'"
  using assms
  by (cases c; auto simp: running_def session_defs Let_def Reset_def debug_def split: if_splits)

lemma remove_unmapped:
  assumes "\<forall>t'. active (cache v) t' \<noteq> Some s1"
  shows "sessions (remove t v) s1 = sessions v s1"
  using assms by (auto simp: sessions_remove split: option.splits)

lemma task_step_running:
  assumes "task_step ch t w = Some (t', w')" and "\<forall>token. active (cache w) token \<noteq> Some sn"
  shows "sessions w' sn = sessions w sn"
  using assms
  by (cases t; cases ch; auto simp: remove_unmapped split: option.splits if_splits)

lemma Get_step_retired:
  assumes ret: "retired sn (cs, w)" and i: "i < length cs"
    and st: "Get_step e (cs ! i) w = (pc, w')"
  shows "retired sn (cs[i := pc], w') \<and> sessions w' sn = sessions w sn"
proof -
  have mem: "cs ! i \<in> set cs" using i by simp
  have lt: "sn < nsessions w" and un: "\<And>t. active (cache w) t \<noteq> Some sn"
    and ins: "\<And>q t lc. q \<in> set cs \<Longrightarrow> q = AtInsert t lc \<Longrightarrow> l_sn lc \<noteq> sn"
    using ret by (auto simp: retired_def)
  have upd: "retired sn (cs[i := pc], w')"
    if "nsessions w \<le> nsessions w'"
      and "\<And>t. active (cache w') t \<noteq> Some sn"
      and "\<And>t lc. pc = AtInsert t lc \<Longrightarrow> l_sn lc \<noteq> sn"
  proof -
    have "l_sn lc \<noteq> sn" if "q \<in> set (cs[i := pc])" and "q = AtInsert t lc" for q t lc
    proof -
      from that(1) have "q = pc \<or> q \<in> set cs"
        using set_update_subset_insert[of cs i pc] by auto
      with that(2) ins \<open>\<And>t lc. pc = AtInsert t lc \<Longrightarrow> l_sn lc \<noteq> sn\<close> show ?thesis by blast
    qed
    with that(1,2) lt show ?thesis by (auto simp: retired_def)
  qed
  show ?thesis
  proof (cases "cs ! i")
    case (AtLookup token)
    with st un show ?thesis
      by (intro conjI upd) (auto simp: debug_simps split: option.splits)
  next
    case (AtBuild token)
    obtain b w1 where b: "Get_build e token w = (b, w1)" by (cases "Get_build e token w")
    show ?thesis
    proof (cases b)
      case (Inl err)
      with b AtBuild st un Get_build_Inl(1-3)[of e token w err w1] show ?thesis
        by (intro conjI upd) auto
    next
      case (Inr lc)
      with b AtBuild st un lt Get_build_Inr(1-3)[of e token w lc w1]
        Get_build_Inr(11)[of e token w lc w1 sn]
      show ?thesis
        by (intro conjI upd) auto
    qed
  next
    case (AtInsert token lc)
    with st un ins[OF mem] show ?thesis
      by (intro conjI upd) (auto simp: Get_insert_def split: if_splits)
  next
    case (AtSpawn token lc)
    with st un show ?thesis
      by (intro conjI upd) (auto simp: Get_spawn_def)
  next
    case (AtWait token lc)
    with st un show ?thesis
      by (intro conjI upd) (auto simp: debug_simps split: if_splits)
  next
    case (AtRemove token)
    with st un show ?thesis
      by (intro conjI upd) (auto simp: active_remove remove_frame remove_unmapped split: if_splits)
  next
    case (Returned token r)
    with st un show ?thesis
      by (intro conjI upd) auto
  qed
qed

lemma step_retired:
  assumes "step e k k'" and "retired sn k" and "running sn (snd k)"
  shows "retired sn k' \<and> running sn (snd k')"
  using assms
proof (cases rule: step.cases)
  case (enter cs w token)
  with assms(2,3) show ?thesis by (auto simp: retired_def)
next
  case (get i cs w pc w')
  with assms(2,3) Get_step_retired[of sn cs w i e pc w'] show ?thesis
    by (auto simp: running_def)
next
  case (task j w ch t w' cs)
  with assms(2,3) task_step_frame[of ch "goroutines w ! j" w t w']
    task_step_running[of ch "goroutines w ! j" w t w' sn]
  show ?thesis
    by (auto simp: retired_def running_def)
next
  case (tick d cs w)
  with assms(2,3) show ?thesis by (auto simp: retired_def running_def)
next
  case (use s w c r w' cs)
  with assms(2,3) session_call_frame[of e s c w r w'] session_call_running[of e s c w r w' sn]
  show ?thesis
    by (auto simp: retired_def)
qed

lemma steps_retired:
  assumes "(step e)\<^sup>*\<^sup>* k k'" and "retired sn k" and "running sn (snd k)"
  shows "retired sn k' \<and> running sn (snd k')"
  using assms
proof (induction rule: rtranclp_induct)
  case base
  then show ?case by simp
next
  case (step y z)
  then show ?case using step_retired by blast
qed

lemma race_retired: "retired 0 (fst race, world_race) \<and> running 0 world_race"
proof -
  have "nsessions world_race = 2"
    by (simp add: world_race_def race_def sched_def Get_defs example_defs)
  moreover have "\<forall>token. active (cache world_race) token \<noteq> Some 0"
    by (simp add: world_race_def race_def sched_def Get_defs example_defs)
  ultimately show ?thesis
    by (simp add: retired_def running_def race_eval)
qed

lemma race_steps: "(step env_ok)\<^sup>*\<^sup>* (fst race, world_race) (fst race, world_evicted)"
proof -
  let ?v = "world_race\<lparr>goroutines := (goroutines world_race)[0 := SyncReturned ''tok-a'']\<rparr>"
  have "step env_ok (fst race, world_race) (fst race, ?v)"
    using task[of 0 world_race "StartReturns (Some (Cause ''watch failed''))"
        "SyncReturned ''tok-a''" world_race env_ok "fst race"]
    by (simp add: race_eval)
  moreover have "step env_ok (fst race, ?v) (fst race, world_evicted)"
    using task[of 0 ?v Proceed Finished "remove ''tok-a'' ?v" env_ok "fst race"]
    by (simp add: race_eval world_evicted_def remove_def Let_def cancel_def Stop_def debug_def)
  ultimately show ?thesis by (rule converse_rtranclp_into_rtranclp[OF _ r_into_rtranclp])
qed

section \<open>The claims\<close>

subsection \<open>C1\<close>

text \<open>
  C1. When a session is already mapped under the token, \<open>Get\<close> returns that session
  (the same address) and no error. Nothing is built: the answer is the same whatever
  the constructors and \<open>WaitForCacheSync\<close> would answer, no configuration is copied,
  no session is allocated and no goroutine is started. The ticker of the session is
  not reset, and the map, like every field of the cache, is unchanged. The only
  effect is the line \<open>Used existing client\<close> given to the logger. The lookup is one
  step under the read lock, so the same holds when other goroutines run.
\<close>

theorem Get_existing:
  assumes "active (cache w) token = Some sn"
  shows "Get e token w =
           (Inr sn, debug (WithValues (log (cache w)) [(''token'', Str token)])
                      ''Used existing client'' [] w) \<and>
         Get e' token w = Get e token w \<and>
         Get_step e (AtLookup token) w = (Returned token (Inr sn), snd (Get e token w)) \<and>
         cache (snd (Get e token w)) = cache w \<and>
         sessions (snd (Get e token w)) = sessions w \<and>
         expired (sessions (snd (Get e token w)) sn) = expired (sessions w sn) \<and>
         nsessions (snd (Get e token w)) = nsessions w \<and>
         configs (snd (Get e token w)) = configs w \<and>
         nconfigs (snd (Get e token w)) = nconfigs w \<and>
         goroutines (snd (Get e token w)) = goroutines w \<and>
         now (snd (Get e token w)) = now w"
  using assms by (simp add: Get_def Let_def debug_simps)

theorem Get_existing_witness:
  "active (cache world_a) ''tok-a'' = Some 0 \<and>
   fst (Get env_ok ''tok-a'' world_a) = Inr 0 \<and>
   Get env_nosync ''tok-a'' world_a = Get env_ok ''tok-a'' world_a \<and>
   snd (Get env_ok ''tok-a'' world_a) = world_a"
proof -
  have h: "active (cache world_a) ''tok-a'' = Some 0" by (rule world_a_active)
  have l: "log (cache world_a) = NopLogger"
    by (simp add: world_a_def Get_defs example_defs)
  from Get_existing[OF h, of env_ok env_nosync] h l show ?thesis
    by (simp add: debug_Nop)
qed

subsection \<open>C2\<close>

text \<open>
  C2. Each of the ten methods of a session first resets the ticker of the session, so
  that its next tick is \<open>expiry\<close>, five minutes, after the present moment, and then
  calls the method of the same name of the delegating client with the arguments it
  was given: the delegating client is called in the world in which the ticker is
  already reset. What that one call answers is returned as it is. Afterwards the
  method only writes a line to the logger.
\<close>

theorem session_operations:
  "expiry = 5 * 60 * 1000000000 \<and>
   expired (sessions (Reset s expiry w) s) = Some (now w + expiry) \<and>
   session_Get e s c key ob w =
     (client_Get e (client (sessions w s)) c key ob (Reset s expiry w),
      debug (slog (sessions w s)) ''Client called''
        [(''operation'', Str ''Get''), (''duration'', Dur 0),
         (''new-expiry'', At (now w + expiry))] (Reset s expiry w)) \<and>
   session_List e s c list opts w =
     (client_List e (client (sessions w s)) c list opts (Reset s expiry w),
      debug (slog (sessions w s)) ''Client called''
        [(''operation'', Str ''List''), (''duration'', Dur 0),
         (''new-expiry'', At (now w + expiry))] (Reset s expiry w)) \<and>
   session_Create e s c ob opts w =
     (client_Create e (client (sessions w s)) c ob opts (Reset s expiry w),
      debug (slog (sessions w s)) ''Client called''
        [(''operation'', Str ''Create''), (''duration'', Dur 0),
         (''new-expiry'', At (now w + expiry))] (Reset s expiry w)) \<and>
   session_Delete e s c ob opts w =
     (client_Delete e (client (sessions w s)) c ob opts (Reset s expiry w),
      debug (slog (sessions w s)) ''Client called''
        [(''operation'', Str ''Delete''), (''duration'', Dur 0),
         (''new-expiry'', At (now w + expiry))] (Reset s expiry w)) \<and>
   session_Update e s c ob opts w =
     (client_Update e (client (sessions w s)) c ob opts (Reset s expiry w),
      debug (slog (sessions w s)) ''Client called''
        [(''operation'', Str ''Update''), (''duration'', Dur 0),
         (''new-expiry'', At (now w + expiry))] (Reset s expiry w)) \<and>
   session_Patch e s c ob p opts w =
     (client_Patch e (client (sessions w s)) c ob p opts (Reset s expiry w),
      debug (slog (sessions w s)) ''Client called''
        [(''operation'', Str ''Patch''), (''duration'', Dur 0),
         (''new-expiry'', At (now w + expiry))] (Reset s expiry w)) \<and>
   session_DeleteAllOf e s c ob opts w =
     (client_DeleteAllOf e (client (sessions w s)) c ob opts (Reset s expiry w),
      debug (slog (sessions w s)) ''Client called''
        [(''operation'', Str ''DeleteallOf''), (''duration'', Dur 0),
         (''new-expiry'', At (now w + expiry))] (Reset s expiry w)) \<and>
   session_Status e s w =
     (client_Status e (client (sessions w s)) (Reset s expiry w),
      debug (slog (sessions w s)) ''Client called''
        [(''operation'', Str ''Status''), (''duration'', Dur 0),
         (''new-expiry'', At (now w + expiry))] (Reset s expiry w)) \<and>
   session_Scheme e s w =
     (client_Scheme e (client (sessions w s)) (Reset s expiry w),
      debug (slog (sessions w s)) ''Client called''
        [(''operation'', Str ''Scheme''), (''duration'', Dur 0),
         (''new-expiry'', At (now w + expiry))] (Reset s expiry w)) \<and>
   session_RESTMapper e s w =
     (client_RESTMapper e (client (sessions w s)) (Reset s expiry w),
      debug (slog (sessions w s)) ''Client called''
        [(''operation'', Str ''Scheme''), (''duration'', Dur 0),
         (''new-expiry'', At (now w + expiry))] (Reset s expiry w))"
  by (simp add: session_defs Let_def Reset_simps expiry_def Minute_def)

subsection \<open>C3\<close>

text \<open>
  C3. When \<open>ca.Start\<close> returns, whatever it returns (\<open>nil\<close> after a cancellation, an
  error after a failure), the goroutine that ran it moves to the call of \<open>remove\<close> for
  its token. From there its one possible step is that call, and the whole system can
  always take it: the step asks nothing of the clock or of the ticker, so it does not
  wait for the five minutes to pass. After the step the token has no entry, and the
  session that was mapped under the token is cancelled and its ticker stopped.
\<close>

theorem sync_task_removes:
  assumes "j < length (goroutines w)" and "goroutines w ! j = SyncReturned token"
  shows "task_step (StartReturns r) (SyncTask token ca sn) v = Some (SyncReturned token, v) \<and>
         (\<forall>i. i < length (goroutines v) \<and> goroutines v ! i = SyncTask token ca sn \<longrightarrow>
            step e (cs, v) (cs, v\<lparr>goroutines := (goroutines v)[i := SyncReturned token]\<rparr>)) \<and>
         task_step ch (SyncReturned token) w \<in> {None, Some (Finished, remove token w)} \<and>
         step e (cs, w) (cs, (remove token w)\<lparr>goroutines := (goroutines w)[j := Finished]\<rparr>) \<and>
         active (cache ((remove token w)\<lparr>goroutines := (goroutines w)[j := Finished]\<rparr>)) token
           = None \<and>
         (case active (cache w) token of
            None \<Rightarrow> True
          | Some s \<Rightarrow> ctx_done (sessions (remove token w) s) \<and>
                      expired (sessions (remove token w) s) = None)"
proof -
  have a: "step e (cs, v) (cs, v\<lparr>goroutines := (goroutines v)[i := SyncReturned token]\<rparr>)"
    if "i < length (goroutines v)" and "goroutines v ! i = SyncTask token ca sn" for i
    using task[of i v "StartReturns r" "SyncReturned token" v e cs] that by simp
  have b: "step e (cs, w) (cs, (remove token w)\<lparr>goroutines := (goroutines w)[j := Finished]\<rparr>)"
    using task[of j w Proceed Finished "remove token w" e cs] assms
    by (simp add: remove_frame)
  have c: "task_step ch (SyncReturned token) w \<in> {None, Some (Finished, remove token w)}"
    by (cases ch) simp_all
  from a b c show ?thesis
    by (simp add: active_remove sessions_remove split: option.splits)
qed

theorem sync_task_removes_witness:
  "goroutines world_a ! 0 = SyncTask ''tok-a'' 5 0 \<and>
   step env_ok ([], world_a) ([], world_crashed) \<and>
   goroutines world_crashed ! 0 = SyncReturned ''tok-a'' \<and>
   active (cache world_crashed) ''tok-a'' = Some 0 \<and>
   now world_crashed < 1000 + expiry \<and>
   expired (sessions world_crashed 0) = Some (1000 + expiry) \<and>
   step env_ok ([], world_crashed)
     ([], (remove ''tok-a'' world_crashed)
            \<lparr>goroutines := [Finished, IdleTask ''tok-a'' 0]\<rparr>) \<and>
   active (cache ((remove ''tok-a'' world_crashed)
            \<lparr>goroutines := [Finished, IdleTask ''tok-a'' 0]\<rparr>)) ''tok-a'' = None \<and>
   ctx_done (sessions (remove ''tok-a'' world_crashed) 0) \<and>
   expired (sessions (remove ''tok-a'' world_crashed) 0) = None"
proof -
  have g: "goroutines world_crashed = [SyncReturned ''tok-a'', IdleTask ''tok-a'' 0]"
    by (simp add: world_crashed_def world_a_eval)
  have h1: "0 < length (goroutines world_crashed)" by (simp add: g)
  have h2: "goroutines world_crashed ! 0 = SyncReturned ''tok-a''" by (simp add: g)
  have a: "active (cache world_crashed) ''tok-a'' = Some 0"
    by (simp add: world_crashed_def world_a_active)
  have s: "sessions world_crashed = sessions world_a" "now world_crashed = now world_a"
    by (simp_all add: world_crashed_def)
  note T = sync_task_removes[OF h1 h2, where v = world_a and ca = 5 and sn = 0 and e = env_ok
      and cs = "[]"]
  from T have "\<forall>i. i < length (goroutines world_a) \<and>
        goroutines world_a ! i = SyncTask ''tok-a'' 5 0 \<longrightarrow>
      step env_ok ([], world_a)
        ([], world_a\<lparr>goroutines := (goroutines world_a)[i := SyncReturned ''tok-a'']\<rparr>)"
    by blast
  from this[THEN spec, of 0] have s1: "step env_ok ([], world_a) ([], world_crashed)"
    by (simp add: world_a_eval world_crashed_def)
  from T have "step env_ok ([], world_crashed)
      ([], (remove ''tok-a'' world_crashed)
             \<lparr>goroutines := (goroutines world_crashed)[0 := Finished]\<rparr>)"
    by blast
  then have s2: "step env_ok ([], world_crashed)
      ([], (remove ''tok-a'' world_crashed)\<lparr>goroutines := [Finished, IdleTask ''tok-a'' 0]\<rparr>)"
    by (simp add: g)
  from T have "active (cache ((remove ''tok-a'' world_crashed)
      \<lparr>goroutines := (goroutines world_crashed)[0 := Finished]\<rparr>)) ''tok-a'' = None"
    by blast
  then have n: "active (cache ((remove ''tok-a'' world_crashed)
      \<lparr>goroutines := [Finished, IdleTask ''tok-a'' 0]\<rparr>)) ''tok-a'' = None"
    by simp
  from T a have c: "ctx_done (sessions (remove ''tok-a'' world_crashed) 0) \<and>
      expired (sessions (remove ''tok-a'' world_crashed) 0) = None"
    by simp
  have t: "now world_crashed < 1000 + expiry"
    "expired (sessions world_crashed 0) = Some (1000 + expiry)"
    by (simp_all add: s world_a_eval expiry_def Minute_def)
  have "goroutines world_a ! 0 = SyncTask ''tok-a'' 5 0" by (simp add: world_a_eval)
  with s1 s2 n c t a h2 show ?thesis by simp
qed

subsection \<open>C4\<close>

text \<open>
  C4. A call of \<open>Get\<close> that returns an error found no entry for the token and leaves
  none, and the map is the one it found; a later \<open>Get\<close> for the token misses again and
  goes on to build. When the write client, the cache or the delegating client could
  not be made, nothing was inserted: the cache, the sessions and the goroutines are as
  before. When the first sync failed, the session that had been inserted is out of
  the map again, cancelled, with its ticker stopped. With other goroutines running
  in between, the step in which the call fails is still one of these two: a build that
  leaves the cache as it is, or the call of \<open>remove\<close>, after which the token has no
  entry.
\<close>

theorem Get_failure:
  assumes "Get e token w = (Inl err, w')"
  shows "active (cache w) token = None \<and>
         active (cache w') token = None \<and>
         active (cache w') = active (cache w) \<and>
         Get_step e' (AtLookup token) w' = (AtBuild token, w') \<and>
         (if err = New ''cannot sync cache''
          then nsessions w' = Suc (nsessions w) \<and>
               ctx_done (sessions w' (nsessions w)) \<and>
               expired (sessions w' (nsessions w)) = None
          else cache w' = cache w \<and> sessions w' = sessions w \<and>
               nsessions w' = nsessions w \<and> goroutines w' = goroutines w) \<and>
         (\<forall>err1 v'. Get_step e (AtBuild token) v = (Returned token (Inl err1), v') \<longrightarrow>
            cache v' = cache v \<and> sessions v' = sessions v \<and> goroutines v' = goroutines v) \<and>
         Get_step e (AtRemove token) v =
           (Returned token (Inl (New ''cannot sync cache'')), remove token v) \<and>
         active (cache (remove token v)) token = None"
proof -
  from assms have miss: "active (cache w) token = None"
    by (cases "active (cache w) token") (auto simp: Get_def Let_def)
  obtain b w1 where b: "Get_build e token w = (b, w1)" by (cases "Get_build e token w")
  have main: "active (cache w') = active (cache w) \<and>
         (if err = New ''cannot sync cache''
          then nsessions w' = Suc (nsessions w) \<and>
               ctx_done (sessions w' (nsessions w)) \<and>
               expired (sessions w' (nsessions w)) = None
          else cache w' = cache w \<and> sessions w' = sessions w \<and>
               nsessions w' = nsessions w \<and> goroutines w' = goroutines w)"
  proof (cases b)
    case (Inl e1)
    with b miss assms have "err = e1" "w' = w1" by (auto simp: Get_def Let_def)
    with Inl b Get_build_Inl[of e token w err w1] Get_build_error[of e token w err w1]
    show ?thesis by auto
  next
    case (Inr lc)
    let ?w3 = "Get_spawn token (l_ca lc) (l_sn lc) (Get_insert token (l_sn lc) w1)"
    from Inr b miss assms have e: "err = New ''cannot sync cache''" and w': "w' = remove token ?w3"
      by (auto simp: Get_def Let_def Get_wait_def split: if_splits)
    have sn: "l_sn lc = nsessions w" and c1: "cache w1 = cache w"
      and n1: "nsessions w1 = Suc (nsessions w)"
      using Get_build_Inr(1-3)[of e token w lc w1] b Inr by auto
    have act: "active (cache ?w3) token = Some (nsessions w)"
      by (simp add: Get_spawn_def Get_insert_def sn)
    have "active (cache w') = active (cache w)"
      using miss by (simp add: w' active_remove Get_spawn_def Get_insert_def c1 fun_upd_idem)
    moreover have "nsessions w' = Suc (nsessions w)"
      by (simp add: w' remove_frame Get_spawn_def Get_insert_def n1)
    moreover have "ctx_done (sessions w' (nsessions w)) \<and> expired (sessions w' (nsessions w)) = None"
      by (simp add: w' sessions_remove act)
    ultimately show ?thesis using e by simp
  qed
  with miss have A: "active (cache w) token = None \<and>
         active (cache w') token = None \<and>
         active (cache w') = active (cache w) \<and>
         Get_step e' (AtLookup token) w' = (AtBuild token, w') \<and>
         (if err = New ''cannot sync cache''
          then nsessions w' = Suc (nsessions w) \<and>
               ctx_done (sessions w' (nsessions w)) \<and>
               expired (sessions w' (nsessions w)) = None
          else cache w' = cache w \<and> sessions w' = sessions w \<and>
               nsessions w' = nsessions w \<and> goroutines w' = goroutines w)"
    by simp
  have B: "\<forall>err1 v'. Get_step e (AtBuild token) v = (Returned token (Inl err1), v') \<longrightarrow>
      cache v' = cache v \<and> sessions v' = sessions v \<and> goroutines v' = goroutines v"
    using Get_step_build_fails by blast
  have C: "Get_step e (AtRemove token) v =
      (Returned token (Inl (New ''cannot sync cache'')), remove token v)"
    by simp
  have D: "active (cache (remove token v)) token = None"
    by (simp add: active_remove)
  from A B C D show ?thesis by blast
qed

theorem Get_failure_witness:
  "Get env_nosync ''tok-a'' world0 = (Inl (New ''cannot sync cache''), world_nosync) \<and>
   active (cache world_nosync) ''tok-a'' = None \<and>
   nsessions world_nosync = 1 \<and>
   ctx_done (sessions world_nosync 0) \<and>
   expired (sessions world_nosync 0) = None \<and>
   Get_step env_ok (AtLookup ''tok-a'') world_nosync = (AtBuild ''tok-a'', world_nosync) \<and>
   fst (Get env_ok ''tok-a'' world_nosync) = Inr 1"
proof -
  have g: "Get env_nosync ''tok-a'' world0 = (Inl (New ''cannot sync cache''), world_nosync)"
    by (simp add: world_nosync_def prod_eq_iff) (simp add: Get_defs example_defs)
  have n: "nsessions world0 = 0" by (simp add: world0_def)
  have "fst (Get env_ok ''tok-a'' world_nosync) = Inr 1"
    by (simp add: world_nosync_def Get_defs example_defs remove_def cancel_def Stop_def)
  with Get_failure[OF g, of env_ok] g n show ?thesis by simp
qed

subsection \<open>C5\<close>

text \<open>
  C5. \<open>Get\<close> returns a session and no error, or one of four errors and no other: the
  error of \<open>client.New\<close> wrapped with \<open>cannot create write client\<close>, the error of
  \<open>cache.New\<close> wrapped with \<open>cannot create cache\<close>, the error of
  \<open>client.NewDelegatingClient\<close> wrapped with \<open>cannot create delegating client\<close>, or the
  new error \<open>cannot sync cache\<close>, which wraps no cause.
\<close>

theorem Get_errors:
  "(\<exists>sn. fst (Get e token w) = Inr sn) \<or>
   (\<exists>c. fst (Get e token w) = Inl (Wrap c ''cannot create write client'')) \<or>
   (\<exists>c. fst (Get e token w) = Inl (Wrap c ''cannot create cache'')) \<or>
   (\<exists>c. fst (Get e token w) = Inl (Wrap c ''cannot create delegating client'')) \<or>
   fst (Get e token w) = Inl (New ''cannot sync cache'')"
proof (cases "active (cache w) token")
  case (Some sn)
  then show ?thesis by (simp add: Get_def Let_def)
next
  case None
  obtain b w1 where b: "Get_build e token w = (b, w1)" by (cases "Get_build e token w")
  show ?thesis
  proof (cases b)
    case (Inl err)
    with b None Get_build_error[of e token w err w1] show ?thesis
      by (auto simp: Get_def Let_def)
  next
    case (Inr lc)
    with b None show ?thesis
      by (simp add: Get_def Let_def Get_wait_def)
  qed
qed

subsection \<open>C6\<close>

text \<open>
  C6. \<open>remove\<close> twice for the same token gives the world that \<open>remove\<close> once gives: the
  second call finds no entry and changes nothing, as every \<open>remove\<close> for a token without
  an entry does. After the first call, and so after both, the token has no entry, and
  the session that was mapped has its ticker stopped and its context cancelled. The
  body of \<open>remove\<close> runs under the write lock, so two calls made at the same time run
  one after the other; the second is without effect also when the goroutine that
  made the first has ended in between.
\<close>

theorem remove_idempotent:
  "remove token (remove token w) = remove token w \<and>
   remove token ((remove token w)\<lparr>goroutines := g\<rparr>) = (remove token w)\<lparr>goroutines := g\<rparr> \<and>
   (active (cache v) token = None \<longrightarrow> remove token v = v) \<and>
   active (cache (remove token w)) token = None \<and>
   (case active (cache w) token of
      None \<Rightarrow> remove token w = w
    | Some sn \<Rightarrow>
        ctx_done (sessions (remove token w) sn) \<and>
        expired (sessions (remove token w) sn) = None \<and>
        ctx_done (sessions (remove token (remove token w)) sn) \<and>
        expired (sessions (remove token (remove token w)) sn) = None)"
proof -
  have "remove token ((remove token w)\<lparr>goroutines := g\<rparr>) = (remove token w)\<lparr>goroutines := g\<rparr>"
    by (rule remove_absent) (simp add: active_remove)
  then show ?thesis
    by (simp add: remove_twice active_remove sessions_remove remove_absent split: option.splits)
qed

theorem remove_idempotent_witness:
  "remove ''tok-a'' (remove ''tok-a'' world_a) = remove ''tok-a'' world_a \<and>
   active (cache world_a) ''tok-a'' = Some 0 \<and>
   active (cache (remove ''tok-a'' world_a)) ''tok-a'' = None \<and>
   ctx_done (sessions (remove ''tok-a'' world_a) 0) \<and>
   expired (sessions (remove ''tok-a'' world_a) 0) = None \<and>
   \<not> ctx_done (sessions world_a 0) \<and>
   expired (sessions world_a 0) = Some (1000 + expiry)"
proof -
  have "\<not> ctx_done (sessions world_a 0)" "expired (sessions world_a 0) = Some (1000 + expiry)"
    by (simp_all add: world_a_def Get_defs example_defs)
  with remove_idempotent[of "''tok-a''" world_a] world_a_active show ?thesis
    by simp
qed

subsection \<open>C7\<close>

text \<open>
  C7. In every state that the system can reach from a cache with an empty map, by any
  interleaving of calls of \<open>Get\<close>, goroutines, method calls on sessions and the passing
  of time: two calls of \<open>Get\<close> that have returned sessions for different tokens have
  returned different sessions; no session is mapped under two tokens; and a token is
  mapped to at most one session.
\<close>

theorem sessions_not_shared:
  assumes "reach e (cs, w)"
  shows "(\<forall>t1 t2 s1 s2. Returned t1 (Inr s1) \<in> set cs \<and> Returned t2 (Inr s2) \<in> set cs \<and>
            t1 \<noteq> t2 \<longrightarrow> s1 \<noteq> s2) \<and>
         (\<forall>t1 t2 s. active (cache w) t1 = Some s \<and> active (cache w) t2 = Some s \<longrightarrow> t1 = t2) \<and>
         (\<forall>t. card {s. active (cache w) t = Some s} \<le> 1)"
proof -
  from reach_owned[OF assms] obtain own where inv: "owned own (cs, w)" by blast
  have a: "\<And>t s. Returned t (Inr s) \<in> set cs \<Longrightarrow> own s = t"
    using inv by (fastforce simp: owned_def)
  have b: "\<And>t s. active (cache w) t = Some s \<Longrightarrow> own s = t"
    using inv by (simp add: owned_def)
  have c: "card {s. active (cache w) t = Some s} \<le> 1" for t
    by (cases "active (cache w) t") simp_all
  show ?thesis using a b c by blast
qed

theorem sessions_not_shared_witness:
  "reach env_ok
     ([Returned ''tok-a'' (Get_result env_ok ''tok-a'' world0),
       Returned ''tok-b'' (Get_result env_ok ''tok-b'' world_a)], world_ab) \<and>
   Get_result env_ok ''tok-a'' world0 = Inr 0 \<and>
   Get_result env_ok ''tok-b'' world_a = Inr 1 \<and>
   Get_result env_ok ''tok-a'' world0 \<noteq> Get_result env_ok ''tok-b'' world_a"
proof -
  have a: "Get_result env_ok ''tok-a'' world0 = Inr 0"
    by (simp add: Get_result_def Get_defs example_defs)
  have b: "Get_result env_ok ''tok-b'' world_a = Inr 1"
    by (simp add: Get_result_def world_a_def Get_defs example_defs)
  have r0: "reach env_ok ([], world0)"
    by (rule reach_init) (simp add: world0_def NewCache_def)
  have ra: "reach env_ok ([Returned ''tok-a'' (Inr 0)], world_a)"
    using reach_Get[OF r0, of "''tok-a''" "Inr 0" world_a] a
    by (simp add: world_a_def Get_result_def prod_eq_iff)
  have r: "reach env_ok ([Returned ''tok-a'' (Inr 0), Returned ''tok-b'' (Inr 1)], world_ab)"
    using reach_Get[OF ra, of "''tok-b''" "Inr 1" world_ab] b
    by (simp add: world_ab_def Get_result_def prod_eq_iff)
  from sessions_not_shared[OF r] have "\<forall>t1 t2 s1 s2.
      Returned t1 (Inr s1) \<in> set [Returned ''tok-a'' (Inr 0), Returned ''tok-b'' (Inr 1)] \<and>
      Returned t2 (Inr s2) \<in> set [Returned ''tok-a'' (Inr 0), Returned ''tok-b'' (Inr 1)] \<and>
      t1 \<noteq> t2 \<longrightarrow> s1 \<noteq> s2"
    by blast
  then have "(Inr 0 :: error + sid) \<noteq> Inr 1" by simp
  with r a b show ?thesis by simp
qed

subsection \<open>C8\<close>

text \<open>
  C8, as the source has it. \<open>NewCache\<close> makes a cache with an empty map, the given
  scheme and connection template, the no-op logger and no mapper, and applies the
  options in the order given. \<open>WithLogger\<close> sets the logger and \<open>WithRESTMapper\<close> the
  mapper, and nothing else; options made by these two leave the map empty. No field
  of the cache holds a list of kinds to read live: every delegating client is given
  the fixed list \<open>doNotCache\<close> of nine kinds, so \<open>Get\<close> never asks
  \<open>client.NewDelegatingClient\<close> about any other list.
\<close>

theorem NewCache_options:
  assumes "\<forall>d. UncachedObjects d = doNotCache \<longrightarrow>
             NewDelegatingClient e' d = NewDelegatingClient e d"
  shows "NewCache s c [] =
           \<lparr>active = Map.empty, cfg = c, scheme = s, mapper = None, log = NopLogger\<rparr> \<and>
         NewCache s c (opts @ [f]) = f (NewCache s c opts) \<and>
         WithLogger l ch = ch\<lparr>log := l\<rparr> \<and>
         WithRESTMapper m ch = ch\<lparr>mapper := Some m\<rparr> \<and>
         active (NewCache s c (map (case_sum WithLogger WithRESTMapper) os)) = Map.empty \<and>
         doNotCache = [Pod, Secret, ConfigMap, Service, ServiceAccount,
                       Deployment, DaemonSet, RoleBinding, ClusterRoleBinding] \<and>
         UncachedObjects (Get_dci ca wc) = doNotCache \<and>
         Get (e\<lparr>NewDelegatingClient := NewDelegatingClient e'\<rparr>) token w = Get e token w"
proof -
  have gw: "Get_wait (e\<lparr>NewDelegatingClient := NewDelegatingClient e'\<rparr>) = Get_wait e"
    by (intro ext) (simp add: Get_wait_def)
  have "Get (e\<lparr>NewDelegatingClient := NewDelegatingClient e'\<rparr>) token w = Get e token w"
    by (simp add: Get_def Get_build_delegating[OF assms] gw Let_def
        cong: option.case_cong prod.case_cong sum.case_cong)
  then show ?thesis
    by (simp add: NewCache_snoc NewCache_known WithLogger_def WithRESTMapper_def Get_dci_def)
       (simp add: NewCache_def doNotCache_def)
qed

theorem NewCache_options_witness:
  "NewDelegatingClient env_empty_only (Get_dci 5 5) = NewDelegatingClient env_ok (Get_dci 5 5) \<and>
   NewDelegatingClient env_empty_only (Get_dci 0 0\<lparr>UncachedObjects := []\<rparr>) \<noteq>
     NewDelegatingClient env_ok (Get_dci 0 0\<lparr>UncachedObjects := []\<rparr>) \<and>
   Get env_empty_only ''tok-a'' world0 = Get env_ok ''tok-a'' world0 \<and>
   mapper (NewCache 7 0 [WithLogger (Logger []), WithRESTMapper 3]) = Some 3 \<and>
   log (NewCache 7 0 [WithLogger (Logger []), WithRESTMapper 3]) = Logger []"
proof -
  have h: "\<forall>d. UncachedObjects d = doNotCache \<longrightarrow>
       NewDelegatingClient env_empty_only d = NewDelegatingClient env_ok d"
    by (simp add: env_empty_only_def env_ok_def doNotCache_def)
  have e: "env_ok\<lparr>NewDelegatingClient := NewDelegatingClient env_empty_only\<rparr> = env_empty_only"
    by (simp add: env_empty_only_def)
  from NewCache_options[OF h, where s = 7 and c = 0 and opts = "[WithLogger (Logger [])]"
      and f = "WithRESTMapper 3" and token = "''tok-a''" and w = world0] h e
  show ?thesis
    by (simp add: NewCache_def WithLogger_def WithRESTMapper_def)
       (simp add: env_empty_only_def env_ok_def Get_dci_def doNotCache_def)
qed

text \<open>
  C8 as stated fails: with a cache made by \<open>NewCache\<close> with no option, the list of kinds
  given to the delegating client is not empty. Collaborators that refuse a delegating
  client with uncached kinds make \<open>Get\<close> fail.
\<close>

theorem denylist_counterexample:
  "cache world0 = NewCache 7 0 [] \<and>
   active (cache world0) ''tok-a'' = None \<and>
   UncachedObjects (Get_dci 0 0) \<noteq> [] \<and>
   fst (Get env_strict ''tok-a'' world0) =
     Inl (Wrap (Cause ''uncached objects given'') ''cannot create delegating client'')"
  by (simp add: Get_defs example_defs doNotCache_def)

subsection \<open>C9\<close>

text \<open>
  C9. On a miss \<open>Get\<close> copies the connection template of the cache to a new address,
  writes the token into \<open>BearerToken\<close> of the copy and the empty string into its
  \<open>BearerTokenFile\<close>, and makes the write client from the copy. The template, like
  every configuration that existed before the call, holds what it held, and the cache
  still points to it.
\<close>

theorem Get_derives_config:
  assumes "active (cache w) token = None" and "cfg (cache w) < nconfigs w"
  shows "fst (Get_config token w) \<noteq> cfg (cache w) \<and>
         configs (snd (Get_config token w)) (fst (Get_config token w)) =
           (configs w (cfg (cache w)))\<lparr>BearerToken := token, BearerTokenFile := []\<rparr> \<and>
         configs (snd (Get_config token w)) (cfg (cache w)) = configs w (cfg (cache w)) \<and>
         configs (snd (Get e token w)) (nconfigs w) =
           (configs w (cfg (cache w)))\<lparr>BearerToken := token, BearerTokenFile := []\<rparr> \<and>
         configs (snd (Get e token w)) (cfg (cache w)) = configs w (cfg (cache w)) \<and>
         (\<forall>p. p < nconfigs w \<longrightarrow> configs (snd (Get e token w)) p = configs w p) \<and>
         cfg (cache (snd (Get e token w))) = cfg (cache w) \<and>
         (\<forall>c. client_New e
                ((configs w (cfg (cache w)))\<lparr>BearerToken := token, BearerTokenFile := []\<rparr>)
                (scheme (cache w)) (mapper (cache w)) = Inl c \<longrightarrow>
              fst (Get e token w) = Inl (Wrap c ''cannot create write client''))"
proof -
  have "\<forall>c. client_New e
                ((configs w (cfg (cache w)))\<lparr>BearerToken := token, BearerTokenFile := []\<rparr>)
                (scheme (cache w)) (mapper (cache w)) = Inl c \<longrightarrow>
              fst (Get e token w) = Inl (Wrap c ''cannot create write client'')"
    using assms(1) by (simp add: Get_def Get_build_def Get_config_eq Let_def)
  then show ?thesis
    using assms by (simp add: Get_miss_configs Get_config_eq)
qed

theorem Get_derives_config_witness:
  "active (cache world0) ''tok-a'' = None \<and> cfg (cache world0) < nconfigs world0 \<and>
   cfg (cache world0) = 0 \<and>
   configs world0 0 = template \<and>
   configs world_a 0 = template \<and>
   configs world_a 1 =
     \<lparr>Host = ''https://kubernetes.default.svc'', APIPath = ''/api'',
      BearerToken = ''tok-a'', BearerTokenFile = []\<rparr> \<and>
   cfg (cache world_a) = 0"
proof -
  have h1: "active (cache world0) ''tok-a'' = None" by (simp add: example_defs NewCache_def)
  have h2: "cfg (cache world0) < nconfigs world0" by (simp add: example_defs NewCache_def)
  from Get_derives_config[OF h1 h2, of env_ok] h1 h2 show ?thesis
    by (simp add: world_a_def) (simp add: example_defs NewCache_def)
qed

subsection \<open>C10\<close>

text \<open>
  C10. The goroutines of a session call \<open>remove\<close> with the token only: a goroutine of
  session \<open>s1\<close> and one of session \<open>s2\<close> for the same token come to the same step. When
  \<open>s2\<close> is mapped under the token and \<open>s1\<close> is another session, that step deletes the
  entry, cancels \<open>s2\<close> and stops the ticker of \<open>s2\<close>, and leaves \<open>s1\<close> as it was. A
  session that no token is mapped to is not changed by any \<open>remove\<close>; and a session
  that is out of the map, with no call about to insert it, stays out of the map in
  every later state of the system, where its context is still not cancelled and its
  ticker still not stopped. Such a state arises after two overlapping calls of \<open>Get\<close>
  for one token, where the second session has overwritten the first in the map.
\<close>

theorem remove_by_token:
  assumes "active (cache w) token = Some s2" and "s1 \<noteq> s2"
  shows "task_step (StartReturns r) (SyncTask token ca s1) v =
           task_step (StartReturns r') (SyncTask token ca' s2) v \<and>
         task_step (StartReturns r) (SyncTask token ca s1) v = Some (SyncReturned token, v) \<and>
         (\<forall>d. expired (sessions v s1) = Some d \<and> d \<le> now v \<longrightarrow>
              task_step SelectExpired (IdleTask token s1) v = Some (IdleExpired token, v)) \<and>
         task_step Proceed (SyncReturned token) w = Some (Finished, remove token w) \<and>
         task_step Proceed (IdleExpired token) w = Some (Finished, remove token w) \<and>
         active (cache (remove token w)) token = None \<and>
         ctx_done (sessions (remove token w) s2) \<and>
         expired (sessions (remove token w) s2) = None \<and>
         sessions (remove token w) s1 = sessions w s1 \<and>
         (\<forall>t. (\<forall>t'. active (cache v) t' \<noteq> Some s1) \<longrightarrow>
              sessions (remove t v) s1 = sessions v s1) \<and>
         (retired s1 (cs, v) \<and> \<not> ctx_done (sessions v s1) \<and> expired (sessions v s1) \<noteq> None \<and>
          (step e)\<^sup>*\<^sup>* (cs, v) (cs', v') \<longrightarrow>
            retired s1 (cs', v') \<and> \<not> ctx_done (sessions v' s1) \<and>
            expired (sessions v' s1) \<noteq> None)"
proof -
  have a: "sessions (remove t v) s1 = sessions v s1"
    if "\<forall>t'. active (cache v) t' \<noteq> Some s1" for t
    using that by (rule remove_unmapped)
  have b: "retired s1 (cs', v') \<and> \<not> ctx_done (sessions v' s1) \<and>
            expired (sessions v' s1) \<noteq> None"
    if "retired s1 (cs, v)" "\<not> ctx_done (sessions v s1)" "expired (sessions v s1) \<noteq> None"
      "(step e)\<^sup>*\<^sup>* (cs, v) (cs', v')"
    using steps_retired[OF that(4) that(1)] that(2,3) by (simp add: running_def)
  have c: "sessions (remove token w) s1 = sessions w s1"
    using assms by (simp add: sessions_remove)
  have d: "ctx_done (sessions (remove token w) s2) \<and> expired (sessions (remove token w) s2) = None"
    using assms by (simp add: sessions_remove)
  have f: "\<forall>d. expired (sessions v s1) = Some d \<and> d \<le> now v \<longrightarrow>
              task_step SelectExpired (IdleTask token s1) v = Some (IdleExpired token, v)"
    by simp
  have g: "active (cache (remove token w)) token = None" by (simp add: active_remove)
  have h: "task_step (StartReturns r) (SyncTask token ca s1) v =
           task_step (StartReturns r') (SyncTask token ca' s2) v"
    "task_step (StartReturns r) (SyncTask token ca s1) v = Some (SyncReturned token, v)"
    "task_step Proceed (SyncReturned token) w = Some (Finished, remove token w)"
    "task_step Proceed (IdleExpired token) w = Some (Finished, remove token w)"
    by simp_all
  from a b c d f g h show ?thesis by blast
qed


theorem remove_by_token_witness:
  "reach env_ok (fst race, world_race) \<and>
   active (cache world_race) ''tok-a'' = Some 1 \<and> (0::nat) \<noteq> 1 \<and>
   goroutines world_race ! 0 = SyncTask ''tok-a'' 5 0 \<and>
   goroutines world_race ! 1 = IdleTask ''tok-a'' 0 \<and>
   task_step (StartReturns (Some (Cause ''watch failed''))) (SyncTask ''tok-a'' 5 0) world_race =
     Some (SyncReturned ''tok-a'', world_race) \<and>
   task_step SelectExpired (IdleTask ''tok-a'' 0) (world_race\<lparr>now := 1000 + expiry\<rparr>) =
     Some (IdleExpired ''tok-a'', world_race\<lparr>now := 1000 + expiry\<rparr>) \<and>
   active (cache (remove ''tok-a'' world_race)) ''tok-a'' = None \<and>
   ctx_done (sessions (remove ''tok-a'' world_race) 1) \<and>
   expired (sessions (remove ''tok-a'' world_race) 1) = None \<and>
   \<not> ctx_done (sessions (remove ''tok-a'' world_race) 0) \<and>
   expired (sessions (remove ''tok-a'' world_race) 0) = Some (1000 + expiry) \<and>
   retired 0 (fst race, world_race) \<and>
   (step env_ok)\<^sup>*\<^sup>* (fst race, world_race) (fst race, world_evicted) \<and>
   retired 0 (fst race, world_evicted) \<and>
   \<not> ctx_done (sessions world_evicted 0) \<and>
   expired (sessions world_evicted 0) \<noteq> None"
proof -
  have h1: "active (cache world_race) ''tok-a'' = Some 1" by (rule race_eval)
  have h2: "(0::nat) \<noteq> 1" by simp
  have r: "reach env_ok (fst race, world_race)"
    using reach_race by (simp add: world_race_def)
  have q: "retired 0 (fst race, world_race)" "\<not> ctx_done (sessions world_race 0)"
    "expired (sessions world_race 0) \<noteq> None"
    using race_retired by (simp_all add: running_def)
  note T1 = remove_by_token[OF h1 h2, where v = "world_race\<lparr>now := 1000 + expiry\<rparr>"
      and r = "Some (Cause ''watch failed'')" and ca = 5]
  note T2 = remove_by_token[OF h1 h2, where v = world_race
      and r = "Some (Cause ''watch failed'')" and ca = 5 and e = env_ok
      and cs = "fst race" and cs' = "fst race" and v' = world_evicted]
  from T2 q race_steps
  have e: "retired 0 (fst race, world_evicted) \<and> \<not> ctx_done (sessions world_evicted 0) \<and>
      expired (sessions world_evicted 0) \<noteq> None"
    by blast
  from T1 have i: "task_step SelectExpired (IdleTask ''tok-a'' 0) (world_race\<lparr>now := 1000 + expiry\<rparr>) =
     Some (IdleExpired ''tok-a'', world_race\<lparr>now := 1000 + expiry\<rparr>)"
    by (simp add: race_eval)
  from T2 have j: "active (cache (remove ''tok-a'' world_race)) ''tok-a'' = None \<and>
     ctx_done (sessions (remove ''tok-a'' world_race) 1) \<and>
     expired (sessions (remove ''tok-a'' world_race) 1) = None \<and>
     sessions (remove ''tok-a'' world_race) 0 = sessions world_race 0"
    by blast
  from e i j h1 r q race_steps show ?thesis
    by (simp add: race_eval)
qed

end
